theory Spec2Isabelle
  imports Complex_Main "HOL-Library.AList"
begin

section \<open>Structured values\<close>

text \<open>
  The values the callback plugin walks over (task results, task variables, diffs) are
  ordinary Python objects.  A string is a list of characters; a dictionary is an
  association list in insertion order (Python dictionaries keep it) whose keys are
  strings, as the keys of a task result are.  \<open>PGen\<close> is a generator object, holding the
  elements it will yield; \<open>POther\<close> is an object of any other type and carries the text
  that \<^verbatim>\<open>type(data)\<close> formats to.  A float is carried by the rational it denotes: the
  traversal only hands it on.
\<close>

datatype pyval =
    PNone
  | PBool bool
  | PInt int
  | PFloat rat
  | PStr string
  | PList "pyval list"
  | PTuple "pyval list"
  | PDict "(string \<times> pyval) list"
  | PGen "pyval list"
  | POther string

type_synonym pydict = "(string \<times> pyval) list"

text \<open>Python truthiness, as \<^verbatim>\<open>if x:\<close> tests it.  A generator and a plain object are true.\<close>

fun truthy :: "pyval \<Rightarrow> bool" where
  "truthy PNone = False"
| "truthy (PBool b) = b"
| "truthy (PInt i) = (i \<noteq> 0)"
| "truthy (PFloat q) = (q \<noteq> 0)"
| "truthy (PStr s) = (s \<noteq> [])"
| "truthy (PList xs) = (xs \<noteq> [])"
| "truthy (PTuple xs) = (xs \<noteq> [])"
| "truthy (PDict kvs) = (kvs \<noteq> [])"
| "truthy (PGen xs) = True"
| "truthy (POther t) = True"

text \<open>\<^verbatim>\<open>key in d\<close>, \<^verbatim>\<open>d[key] = v\<close> and \<^verbatim>\<open>del d[key]\<close> on a dictionary.\<close>

definition has_key :: "string \<Rightarrow> pydict \<Rightarrow> bool" where
  "has_key k d = (map_of d k \<noteq> None)"

definition set_item :: "string \<Rightarrow> pyval \<Rightarrow> pydict \<Rightarrow> pydict" where
  "set_item k v d = AList.update k v d"

definition del_item :: "string \<Rightarrow> pydict \<Rightarrow> pydict" where
  "del_item k d = AList.delete k d"

section \<open>The transform chain\<close>

subsection \<open>Traversal\<close>

text \<open>
  \<^verbatim>\<open>
  def transform_dict(data, callback):
      if isinstance(data, str):
          return callback(data)
      elif isinstance(data, dict):
          return dict([(key, transform_dict(data[key], callback)) for key in data])
      elif isinstance(data, tuple):
          return (transform_dict(d, callback) for d in data)
      elif isinstance(data, list):
          return [transform_dict(d, callback) for d in data]
      elif data is None or isinstance(data, (int, float, bool)):
          return data
      else:
          return f"<RLO error - unrecognized type - {type(data)}>"
  \<close>
  The tuple branch is a generator expression: what it returns is a generator object,
  not a tuple and not a list.  A generator handed to the traversal is itself a value of
  no recognised type.
\<close>

definition type_text :: "pyval \<Rightarrow> string" where
  "type_text v = (case v of PGen _ \<Rightarrow> ''<class 'generator'>'' | POther t \<Rightarrow> t | _ \<Rightarrow> [])"

definition unrecognized :: "string \<Rightarrow> pyval" where
  "unrecognized t = PStr (''<RLO error - unrecognized type - '' @ t @ ''>'')"

fun transform_dict :: "pyval \<Rightarrow> (string \<Rightarrow> string) \<Rightarrow> pyval" where
  "transform_dict (PStr s) callback = PStr (callback s)"
| "transform_dict (PDict kvs) callback =
     PDict (map (\<lambda>(key, v). (key, transform_dict v callback)) kvs)"
| "transform_dict (PTuple xs) callback = PGen (map (\<lambda>d. transform_dict d callback) xs)"
| "transform_dict (PList xs) callback = PList (map (\<lambda>d. transform_dict d callback) xs)"
| "transform_dict PNone callback = PNone"
| "transform_dict (PInt i) callback = PInt i"
| "transform_dict (PFloat q) callback = PFloat q"
| "transform_dict (PBool b) callback = PBool b"
| "transform_dict (PGen xs) callback = unrecognized (type_text (PGen xs))"
| "transform_dict (POther t) callback = unrecognized (type_text (POther t))"

subsection \<open>Transformers\<close>

text \<open>\<^verbatim>\<open>Identity.transform\<close> returns its input; \<^verbatim>\<open>Dummy.transform\<close> a fixed text.\<close>

definition Identity_transform :: "string \<Rightarrow> string" where
  "Identity_transform input = input"

definition Dummy_transform :: "string \<Rightarrow> string" where
  "Dummy_transform input = ''RLODUMMYTRANSFORMER''"

text \<open>
  \<^verbatim>\<open>
  BLACKLISTED_BYTES = {0x07: "<BEL>", 0x08: "<BS>", 0x0C: "<FF>",
                       0x0D: "<CR>", 0x1B: "<ESC>", 0x7F: "<DEL>"}

  def transform(self, input: str) -> str:
      current = input
      for byte_to_replace, replace_with in BLACKLISTED_BYTES.items():
          current = current.replace(chr(byte_to_replace), replace_with)
      return current
  \<close>
  The six code points are below 128, so over the bytes of a UTF-8 text they occur
  exactly where the code points do.
\<close>

definition BLACKLISTED_BYTES :: "(char \<times> string) list" where
  "BLACKLISTED_BYTES =
     [(CHR 0x07, ''<BEL>''), (CHR 0x08, ''<BS>''), (CHR 0x0C, ''<FF>''),
      (CHR 0x0D, ''<CR>''), (CHR 0x1B, ''<ESC>''), (CHR 0x7F, ''<DEL>'')]"

text \<open>\<^verbatim>\<open>s.replace(chr(b), r)\<close>: every occurrence of one character, left to right.\<close>

fun replace :: "char \<Rightarrow> string \<Rightarrow> string \<Rightarrow> string" where
  "replace c r [] = []"
| "replace c r (x # xs) = (if x = c then r @ replace c r xs else x # replace c r xs)"

definition Sanitizer_transform :: "string \<Rightarrow> string" where
  "Sanitizer_transform input =
     fold (\<lambda>(byte_to_replace, replace_with) current. replace byte_to_replace replace_with current)
       BLACKLISTED_BYTES input"

section \<open>Tasks, results and options\<close>

text \<open>
  What the engine hands to the callback is read only.  Of a task the plugin reads
  \<^verbatim>\<open>name\<close>, \<^verbatim>\<open>action\<close>, \<^verbatim>\<open>no_log\<close>, \<^verbatim>\<open>check_mode\<close>, \<^verbatim>\<open>delegate_to\<close>, the name of its role
  (\<^verbatim>\<open>_role\<close>, which may be absent), \<^verbatim>\<open>vars\<close>, \<^verbatim>\<open>loop\<close>, what \<^verbatim>\<open>str(task)\<close> gives and
  \<^verbatim>\<open>get_path()\<close>.  Of a task result it reads the host's name, the task, the result
  dictionary \<^verbatim>\<open>_result\<close> and what the engine's \<^verbatim>\<open>is_changed()\<close> answers.
\<close>

record task =
  t_name :: string
  t_action :: string
  t_no_log :: bool
  t_check_mode :: bool
  t_delegate_to :: "string option"
  t_role :: "string option"
  t_vars :: pydict
  t_loop :: pyval
  t_str :: string
  t_path :: string

record task_result =
  r_host :: string
  r_task :: task
  r_result :: pydict
  r_is_changed :: bool

text \<open>
  The plugin's surroundings: the verbosity of the display, the options
  \<^verbatim>\<open>get_option\<close> reads, and the functions it borrows from the engine
  (\<^verbatim>\<open>strip_internal_keys\<close> after \<^verbatim>\<open>module_response_deepcopy\<close>, and \<^verbatim>\<open>_get_diff\<close>), which
  are parameters here.  \<open>modules\<close> is what the interpreter can import: a module name
  gives the attributes of the module, if it can be imported at all.
\<close>

datatype attribute =
    Transformer "string \<Rightarrow> string"
  | OtherType
  | NotAType

record config =
  verbosity :: int
  display_skipped_hosts :: bool
  display_ok_hosts :: bool
  show_task_path_on_failure :: bool
  check_mode_markers :: bool
  rlo_transformer :: string
  strip_internal_keys :: "pydict \<Rightarrow> pydict"
  get_diff :: "pyval list \<Rightarrow> string"
  modules :: "string \<Rightarrow> (string \<Rightarrow> attribute option) option"

text \<open>
  Exceptions are values: a function that can raise returns \<open>Inl\<close> of the exception, and
  \<open>then_do\<close> runs the rest only after a normal return.
\<close>

datatype error =
    KeyError string
  | ValueError string
  | TypeError string
  | ModuleNotFoundError string
  | AttributeError string

definition then_do :: "error + 'a \<Rightarrow> ('a \<Rightarrow> error + 'b) \<Rightarrow> error + 'b" where
  "then_do m f = (case m of Inl e \<Rightarrow> Inl e | Inr x \<Rightarrow> f x)"

section \<open>Visibility policy\<close>

text \<open>
  \<^verbatim>\<open>
  def _run_is_verbose(self, result, verbosity=0):
      return self._display.verbosity > verbosity
  \<close>
\<close>

definition run_is_verbose :: "config \<Rightarrow> int \<Rightarrow> bool" where
  "run_is_verbose cfg v = (verbosity cfg > v)"

text \<open>
  \<^verbatim>\<open>
  def _should_log_task(self, result, status):
      if self._run_is_verbose(result._result, 1):
          return True
      if result._task.action == 'debug' and not result._task.no_log:
          return True
      if status == 'failed' or status == 'unreachable':
          return True
      if status == 'skipped' and (self.get_option('display_skipped_hosts')
                                  or self._run_is_verbose(result._result, 2)):
          return True
      if status == 'ok' and (result.is_changed() or self.get_option('display_ok_hosts')
                             or self._run_is_verbose(result._result, 2)):
          return True
      return False
  \<close>
  The status is the text the four runner callbacks pass.
\<close>

definition should_log_task :: "config \<Rightarrow> task_result \<Rightarrow> string \<Rightarrow> bool" where
  "should_log_task cfg result status =
     (if run_is_verbose cfg 1 then True
      else if t_action (r_task result) = ''debug'' \<and> \<not> t_no_log (r_task result) then True
      else if status = ''failed'' \<or> status = ''unreachable'' then True
      else if status = ''skipped'' \<and> (display_skipped_hosts cfg \<or> run_is_verbose cfg 2) then True
      else if status = ''ok'' \<and> (r_is_changed result \<or> display_ok_hosts cfg \<or> run_is_verbose cfg 2)
        then True
      else False)"

text \<open>
  \<^verbatim>\<open>
  def _should_print_comprehensive_task_result(self, result, status):
      if self._run_is_verbose(result._result, 3):
          return True
      if status == 'failed':
          return True
      if result._task.action == 'debug' and not result._task.no_log:
          return True
      return False

  def _should_print_reduced_task_result(self, result, status):
      if self._run_is_verbose(result._result, 1):
          return True
      if status == 'ok' and result.is_changed():
          return True
      return False
  \<close>
\<close>

definition should_print_comprehensive_task_result :: "config \<Rightarrow> task_result \<Rightarrow> string \<Rightarrow> bool" where
  "should_print_comprehensive_task_result cfg result status =
     (if run_is_verbose cfg 3 then True
      else if status = ''failed'' then True
      else if t_action (r_task result) = ''debug'' \<and> \<not> t_no_log (r_task result) then True
      else False)"

definition should_print_reduced_task_result :: "config \<Rightarrow> task_result \<Rightarrow> string \<Rightarrow> bool" where
  "should_print_reduced_task_result cfg result status =
     (if run_is_verbose cfg 1 then True
      else if status = ''ok'' \<and> r_is_changed result then True
      else False)"

section \<open>Result shaping\<close>

text \<open>
  \<^verbatim>\<open>
  def _censored_no_log_response(self):
      return dict(censored="the output has been hidden due to the fact that "
                           "'no_log: true' was specified for this result (via RLO)")
  \<close>
\<close>

definition censored_no_log_response :: pydict where
  "censored_no_log_response =
     [(''censored'',
       PStr (''the output has been hidden due to the fact that 'no_log: true' '' @
             ''was specified for this result (via RLO)''))]"

text \<open>
  \<^verbatim>\<open>
  def _get_comprehensive_result_object(self, result, task):
      if task.no_log and not self._run_is_verbose(result, 2):
          return self._censored_no_log_response()
      comprehensive_result = strip_internal_keys(module_response_deepcopy(result))
      if not self._run_is_verbose(result, 3) and 'invocation' in result:
          del comprehensive_result['invocation']
      if not self._run_is_verbose(result, 2):
          if 'diff' in result:
              del comprehensive_result['diff']
          if 'skipped' in comprehensive_result:
              del comprehensive_result['skipped']
      if 'stdout' in comprehensive_result and 'stdout_lines' in comprehensive_result:
          comprehensive_result['stdout_lines'] = '<omitted>'
      if 'stderr' in comprehensive_result and 'stderr_lines' in comprehensive_result:
          comprehensive_result['stderr_lines'] = '<omitted>'
      if task.vars:
          comprehensive_result["task_vars"] = task.vars
      return comprehensive_result
  \<close>
  Two of the deletions are guarded by a test on \<^verbatim>\<open>result\<close> and delete from the stripped
  copy: \<^verbatim>\<open>del\<close> raises \<^verbatim>\<open>KeyError\<close> when the copy has lost the key.
\<close>

definition del_key :: "string \<Rightarrow> pydict \<Rightarrow> error + pydict" where
  "del_key k d = (if has_key k d then Inr (del_item k d) else Inl (KeyError k))"

definition get_comprehensive_result_object :: "config \<Rightarrow> pydict \<Rightarrow> task \<Rightarrow> error + pydict" where
  "get_comprehensive_result_object cfg result tsk =
     (if t_no_log tsk \<and> \<not> run_is_verbose cfg 2 then Inr censored_no_log_response
      else
        then_do (if \<not> run_is_verbose cfg 3 \<and> has_key ''invocation'' result
                 then del_key ''invocation'' (strip_internal_keys cfg result)
                 else Inr (strip_internal_keys cfg result)) (\<lambda>c1.
        then_do (if \<not> run_is_verbose cfg 2
                 then then_do (if has_key ''diff'' result then del_key ''diff'' c1 else Inr c1) (\<lambda>d.
                      Inr (if has_key ''skipped'' d then del_item ''skipped'' d else d))
                 else Inr c1) (\<lambda>c2.
        let c3 = (if has_key ''stdout'' c2 \<and> has_key ''stdout_lines'' c2
                  then set_item ''stdout_lines'' (PStr ''<omitted>'') c2 else c2);
            c4 = (if has_key ''stderr'' c3 \<and> has_key ''stderr_lines'' c3
                  then set_item ''stderr_lines'' (PStr ''<omitted>'') c3 else c3)
        in Inr (if t_vars tsk \<noteq> [] then set_item ''task_vars'' (PDict (t_vars tsk)) c4 else c4))))"

text \<open>
  \<^verbatim>\<open>
  def _get_reduced_result_object(self, result, task):
      if task.no_log and not self._run_is_verbose(result, 2):
          return self._censored_no_log_response()
      reduced_result = {}
      for key in ["stdout", "stderr"]:
          if key in result:
              reduced_result[key] = result[key]
      if "msg" in result and result["msg"] != "All items completed":
          reduced_result["msg"] = result["msg"]
      if task.vars:
          reduced_result["task_vars"] = task.vars
      return reduced_result
  \<close>
\<close>

definition copy_key :: "pydict \<Rightarrow> string \<Rightarrow> pydict \<Rightarrow> pydict" where
  "copy_key result key reduced =
     (case map_of result key of Some v \<Rightarrow> set_item key v reduced | None \<Rightarrow> reduced)"

definition get_reduced_result_object :: "config \<Rightarrow> pydict \<Rightarrow> task \<Rightarrow> pydict" where
  "get_reduced_result_object cfg result tsk =
     (if t_no_log tsk \<and> \<not> run_is_verbose cfg 2 then censored_no_log_response
      else
        let r1 = fold (copy_key result) [''stdout'', ''stderr''] [];
            r2 = (case map_of result ''msg'' of
                    Some v \<Rightarrow> if v \<noteq> PStr ''All items completed'' then set_item ''msg'' v r1 else r1
                  | None \<Rightarrow> r1)
        in if t_vars tsk \<noteq> [] then set_item ''task_vars'' (PDict (t_vars tsk)) r2 else r2)"

section \<open>Texts\<close>

text \<open>
  \<^verbatim>\<open>str.split("/")\<close>, \<^verbatim>\<open>str.startswith(p)\<close>, \<^verbatim>\<open>str.strip(" \n")\<close> and \<^verbatim>\<open>str(n)\<close> of an
  integer, which the messages need.
\<close>

fun split_on :: "char \<Rightarrow> string \<Rightarrow> string list" where
  "split_on c [] = [[]]"
| "split_on c (x # xs) =
     (if x = c then [] # split_on c xs
      else (case split_on c xs of p # ps \<Rightarrow> (x # p) # ps | [] \<Rightarrow> [[x]]))"

definition startswith :: "string \<Rightarrow> string \<Rightarrow> bool" where
  "startswith s p = (take (length p) s = p)"

definition strip_chars :: "string \<Rightarrow> string \<Rightarrow> string" where
  "strip_chars chars s =
     rev (dropWhile (\<lambda>c. c \<in> set chars) (rev (dropWhile (\<lambda>c. c \<in> set chars) s)))"

definition digit_char :: "nat \<Rightarrow> char" where
  "digit_char d = char_of (48 + d)"

fun str_nat :: "nat \<Rightarrow> string" where
  "str_nat n = (if n < 10 then [digit_char n] else str_nat (n div 10) @ [digit_char (n mod 10)])"

declare str_nat.simps [simp del]

definition str_int :: "int \<Rightarrow> string" where
  "str_int i = (if i < 0 then CHR ''-'' # str_nat (nat (- i)) else str_nat (nat i))"

section \<open>The callback's state\<close>

text \<open>
  The progress display is the library's: it keeps a table of live tasks under task
  ids, hands out the ids in increasing order (\<^verbatim>\<open>add_task\<close> returns the current index and
  advances it) and forgets a task on \<^verbatim>\<open>remove_task\<close>.  A live task knows its
  description, its \<^verbatim>\<open>host\<close> field and when it started; its \<^verbatim>\<open>elapsed\<close> is the clock's
  reading less that start.  The clock's reading comes with each event.
\<close>

record slot =
  description :: string
  host_field :: string
  start_time :: rat

text \<open>What has been written to the console, in order.\<close>

datatype printed =
    Log string
  | LogElapsed string pyval
  | Print string
  | PrintRaw string
  | PrintResult pyval
  | PrintBlank

record state =
  hosts :: "string \<rightharpoonup> nat"
  progress_tasks :: "nat \<rightharpoonup> slot"
  task_index :: nat
  role_description :: string
  current_role :: "string option"
  last_printed_role :: "string option"
  should_print_role :: bool
  transformer_user_callback :: "(string \<Rightarrow> string) option"
  live_started :: bool
  console :: "printed list"

text \<open>
  \<^verbatim>\<open>__init__\<close>: no host, no role, an empty progress display, and a role display whose one
  task is described as \<^verbatim>\<open>"None"\<close>.
\<close>

definition init :: "bool \<Rightarrow> state" where
  "init force_interactive =
     \<lparr> hosts = Map.empty, progress_tasks = Map.empty, task_index = 0,
       role_description = ''None'', current_role = None, last_printed_role = None,
       should_print_role = False, transformer_user_callback = None,
       live_started = force_interactive, console = [] \<rparr>"

definition add_task :: "string \<Rightarrow> string \<Rightarrow> rat \<Rightarrow> state \<Rightarrow> nat \<times> state" where
  "add_task desc host_label now st =
     (task_index st,
      st\<lparr> progress_tasks := (progress_tasks st)(task_index st \<mapsto>
             \<lparr> description = desc, host_field = host_label, start_time = now \<rparr>),
          task_index := Suc (task_index st) \<rparr>)"

definition remove_task :: "nat \<Rightarrow> state \<Rightarrow> state" where
  "remove_task tid st = st\<lparr> progress_tasks := (progress_tasks st)(tid := None) \<rparr>"

text \<open>
  \<^verbatim>\<open>
  def _print(self, *args, raw=False):
      if raw: self._progress.console.out(highlight=False, *args)
      else:   self._progress.console.print(soft_wrap=True, *args)
      self._live.refresh()

  def _log(self, *args):
      self._print(CallbackModule._get_current_time_formatted(), *args)
  \<close>
  A logged line is the line without its time stamp.
\<close>

definition print_out :: "printed \<Rightarrow> state \<Rightarrow> state" where
  "print_out x st = st\<lparr> console := console st @ [x] \<rparr>"

definition log_line :: "string \<Rightarrow> state \<Rightarrow> state" where
  "log_line message st = print_out (Log message) st"

section \<open>Resolving the user's transformer\<close>

text \<open>
  \<^verbatim>\<open>
  def get_transformer_class(module_name, transformer_name):
      module = arbitrary_import(module_name)
      maybe_transformer_class = getattr(module, transformer_name)
      if not isinstance(maybe_transformer_class, type):
          raise TypeError(...)
      if not issubclass(maybe_transformer_class, BaseRLOTransformer):
          raise TypeError(...)
      return maybe_transformer_class

  def init_transformer(module_name, transformer_name):
      cls = get_transformer_class(module_name, transformer_name)
      return cls()

  def get_transform_callback(transformer):
      return lambda input: transformer.transform(input)
  \<close>
  The callback of a transformer is its \<^verbatim>\<open>transform\<close>; a transformer class is given by it.
\<close>

definition init_transformer :: "config \<Rightarrow> string \<Rightarrow> string \<Rightarrow> error + (string \<Rightarrow> string)" where
  "init_transformer cfg module_name transformer_name =
     (case modules cfg module_name of
        None \<Rightarrow> Inl (ModuleNotFoundError module_name)
      | Some attrs \<Rightarrow>
          (case attrs transformer_name of
             None \<Rightarrow> Inl (AttributeError transformer_name)
           | Some NotAType \<Rightarrow> Inl (TypeError (transformer_name @ '' is not a type''))
           | Some OtherType \<Rightarrow>
               Inl (TypeError (transformer_name @ '' is not a subclass of BaseRLOTransformer''))
           | Some (Transformer f) \<Rightarrow> Inr f))"

text \<open>
  \<^verbatim>\<open>
  def _transform_dict(self, input):
      if self._transformer_user_callback is None:
          potential_transformer = self.get_option("rlo_transformer")
          parts = potential_transformer.split("/")
          if len(parts) != 2:
              raise ValueError("`rlo_transformer` option is malformed!")
          potential_transformer_module = parts[0]
          potential_transformer_name = parts[1]
          if potential_transformer_module == "":
              potential_transformer_module = "rlo.transformers"
          else:
              sys.path.append(str(pathlib.Path("./").absolute()))
          self._transformer_user = init_transformer(potential_transformer_module,
                                                    potential_transformer_name)
          self._transformer_user_callback = get_transform_callback(self._transformer_user)
      return transform_dict(input, self._transformer_user_callback)

  def _sanitize_dict(self, input):
      return transform_dict(input, self._transformer_sanitizer_callback)
  \<close>
  A function that can raise after it has changed the state returns the state it left
  and the exception, if any.
\<close>

definition transform_dict_user :: "config \<Rightarrow> pyval \<Rightarrow> state \<Rightarrow> (error + pyval) \<times> state" where
  "transform_dict_user cfg input st =
     (case transformer_user_callback st of
        Some callback \<Rightarrow> (Inr (transform_dict input callback), st)
      | None \<Rightarrow>
          (case split_on CHR ''/'' (rlo_transformer cfg) of
             [potential_transformer_module, potential_transformer_name] \<Rightarrow>
               (case init_transformer cfg
                       (if potential_transformer_module = [] then ''rlo.transformers''
                        else potential_transformer_module)
                       potential_transformer_name of
                  Inl e \<Rightarrow> (Inl e, st)
                | Inr callback \<Rightarrow>
                    (Inr (transform_dict input callback),
                     st\<lparr> transformer_user_callback := Some callback \<rparr>))
           | _ \<Rightarrow> (Inl (ValueError ''`rlo_transformer` option is malformed!''), st)))"

definition sanitize_dict :: "pyval \<Rightarrow> pyval" where
  "sanitize_dict input = transform_dict input Sanitizer_transform"

text \<open>\<^verbatim>\<open>[self._transform_dict(d) for d in sanitized_difflist]\<close>: one after the other.\<close>

fun transform_all :: "config \<Rightarrow> pyval list \<Rightarrow> state \<Rightarrow> (error + pyval list) \<times> state" where
  "transform_all cfg [] st = (Inr [], st)"
| "transform_all cfg (d # ds) st =
     (case transform_dict_user cfg d st of
        (Inl e, st') \<Rightarrow> (Inl e, st')
      | (Inr v, st') \<Rightarrow>
          (case transform_all cfg ds st' of
             (Inl e, st'') \<Rightarrow> (Inl e, st'')
           | (Inr vs, st'') \<Rightarrow> (Inr (v # vs), st'')))"

section \<open>Printing results and diffs\<close>

text \<open>
  \<^verbatim>\<open>
  def _print_result(self, result, task, preprocessor):
      preprocessed_result = preprocessor(result, task)
      if preprocessed_result:
          sanitized_result = self._sanitize_dict(preprocessed_result)
          transformed_result = self._transform_dict(sanitized_result)
          yaml_result = get_yaml_string_from_result(transformed_result)
          escaped = escape(yaml_result)
          self._print(f"[bold][bright_magenta]{escaped}[/bold][/bright_magenta]")
  \<close>
  The YAML text of the payload is the dumper's business: what is printed is recorded as
  the structure that is dumped.
\<close>

definition print_result ::
  "config \<Rightarrow> pydict \<Rightarrow> task \<Rightarrow> (pydict \<Rightarrow> task \<Rightarrow> error + pydict) \<Rightarrow> state \<Rightarrow> state \<times> error option"
where
  "print_result cfg result tsk preprocessor st =
     (case preprocessor result tsk of
        Inl e \<Rightarrow> (st, Some e)
      | Inr preprocessed_result \<Rightarrow>
          if preprocessed_result \<noteq> [] then
            (case transform_dict_user cfg (sanitize_dict (PDict preprocessed_result)) st of
               (Inl e, st') \<Rightarrow> (st', Some e)
             | (Inr transformed_result, st') \<Rightarrow>
                 (print_out (PrintResult transformed_result) st', None))
          else (st, None))"

text \<open>
  \<^verbatim>\<open>
  def _print_single_diff(self, result_object):
      diff_raw = result_object['diff']
      if not isinstance(diff_raw, list):
          diff_raw = [diff_raw]
      sanitized_difflist = [self._sanitize_dict(d) for d in diff_raw]
      transformed_difflist = [self._transform_dict(d) for d in sanitized_difflist]
      pretty_diff = self._get_diff(transformed_difflist)
      pretty_diff = pretty_diff.strip(" \n")
      if pretty_diff:
          self._print(pretty_diff, raw=True)

  def _print_diff(self, result):
      if result._task.loop and 'results' in result._result:
          for res in result._result['results']:
              if 'diff' in res and res['diff'] and res.get('changed', False):
                  self._print_single_diff(res)
      elif 'diff' in result._result and result._result['diff'] \
              and result._result.get('changed', False):
          self._print_single_diff(result._result)
  \<close>
  The loop iterates whatever stands under \<^verbatim>\<open>results\<close>: the elements of a list, a tuple
  or a generator, the keys of a dictionary, the characters of a text; a number, a
  boolean or \<^verbatim>\<open>None\<close> is not iterable.  For an item that is not a dictionary,
  \<^verbatim>\<open>'diff' in res\<close> is a substring test on a text and an element test on a sequence; where
  it is true the subscript \<^verbatim>\<open>res['diff']\<close> raises \<^verbatim>\<open>TypeError\<close>, where it is false the item
  is skipped.  An object of a type that the traversal does not recognise is taken to be
  neither iterable nor a container.
\<close>

definition print_single_diff :: "config \<Rightarrow> pydict \<Rightarrow> state \<Rightarrow> state \<times> error option" where
  "print_single_diff cfg result_object st =
     (case map_of result_object ''diff'' of
        None \<Rightarrow> (st, Some (KeyError ''diff''))
      | Some diff_raw \<Rightarrow>
          (case transform_all cfg
                  (map sanitize_dict (case diff_raw of PList ds \<Rightarrow> ds | _ \<Rightarrow> [diff_raw])) st of
             (Inl e, st') \<Rightarrow> (st', Some e)
           | (Inr transformed_difflist, st') \<Rightarrow>
               (let pretty_diff = strip_chars [CHR '' '', CHR 0x0A] (get_diff cfg transformed_difflist)
                in if pretty_diff \<noteq> [] then (print_out (PrintRaw pretty_diff) st', None)
                   else (st', None))))"

definition wants_diff :: "pydict \<Rightarrow> bool" where
  "wants_diff res =
     (case map_of res ''diff'' of
        None \<Rightarrow> False
      | Some d \<Rightarrow> truthy d \<and> (case map_of res ''changed'' of None \<Rightarrow> False | Some c \<Rightarrow> truthy c))"

fun contains :: "string \<Rightarrow> string \<Rightarrow> bool" where
  "contains p [] = (p = [])"
| "contains p (x # xs) = (startswith (x # xs) p \<or> contains p xs)"

definition py_iter :: "pyval \<Rightarrow> error + pyval list" where
  "py_iter v =
     (case v of
        PList xs \<Rightarrow> Inr xs
      | PTuple xs \<Rightarrow> Inr xs
      | PGen xs \<Rightarrow> Inr xs
      | PDict kvs \<Rightarrow> Inr (map (\<lambda>(k, x). PStr k) kvs)
      | PStr s \<Rightarrow> Inr (map (\<lambda>c. PStr [c]) s)
      | _ \<Rightarrow> Inl (TypeError ''object is not iterable''))"

text \<open>
  The condition \<^verbatim>\<open>'diff' in res and res['diff'] and res.get('changed', False)\<close> on one
  item: the dictionary to print a diff of when it holds, nothing when it does not, or
  the exception that evaluating it raises.
\<close>

definition item_wants_diff :: "pyval \<Rightarrow> error + pydict option" where
  "item_wants_diff res =
     (case res of
        PDict d \<Rightarrow> Inr (if wants_diff d then Some d else None)
      | PStr s \<Rightarrow>
          if contains ''diff'' s then Inl (TypeError ''string indices must be integers'')
          else Inr None
      | PList xs \<Rightarrow>
          if PStr ''diff'' \<in> set xs then Inl (TypeError ''list indices must be integers'')
          else Inr None
      | PTuple xs \<Rightarrow>
          if PStr ''diff'' \<in> set xs then Inl (TypeError ''tuple indices must be integers'')
          else Inr None
      | PGen xs \<Rightarrow>
          if PStr ''diff'' \<in> set xs then Inl (TypeError ''generator is not subscriptable'')
          else Inr None
      | _ \<Rightarrow> Inl (TypeError ''argument is not iterable''))"

fun print_diff_items :: "config \<Rightarrow> pyval list \<Rightarrow> state \<Rightarrow> state \<times> error option" where
  "print_diff_items cfg [] st = (st, None)"
| "print_diff_items cfg (res # rest) st =
     (case item_wants_diff res of
        Inl e \<Rightarrow> (st, Some e)
      | Inr None \<Rightarrow> print_diff_items cfg rest st
      | Inr (Some d) \<Rightarrow>
          (case print_single_diff cfg d st of
             (st', Some e) \<Rightarrow> (st', Some e)
           | (st', None) \<Rightarrow> print_diff_items cfg rest st'))"

definition print_diff :: "config \<Rightarrow> task_result \<Rightarrow> state \<Rightarrow> state \<times> error option" where
  "print_diff cfg result st =
     (if truthy (t_loop (r_task result)) \<and> has_key ''results'' (r_result result) then
        (case map_of (r_result result) ''results'' of
           None \<Rightarrow> (st, None)
         | Some v \<Rightarrow>
             (case py_iter v of
                Inl e \<Rightarrow> (st, Some e)
              | Inr items \<Rightarrow> print_diff_items cfg items st))
      else if wants_diff (r_result result) then print_single_diff cfg (r_result result) st
      else (st, None))"

section \<open>Event handlers\<close>

text \<open>
  \<^verbatim>\<open>
  def _get_host_label(host, task):
      label = "%s" % host.get_name()
      if task.delegate_to and task.delegate_to != host.get_name():
          label += " -> %s" % task.delegate_to
      return label

  def _is_task_handler(task):
      return str(task).startswith('HANDLER:')

  def _get_task_infos(self, host, task):
      host_name = host.get_name()
      host_label = CallbackModule._get_host_label(host, task)
      if task.name:
          task_desc = f"[italic]{task.action}[/italic] - {task.name}"
      else:
          task_name = task.action
          task_desc = f"[italic]{task_name}[/italic]"
      if CallbackModule._is_task_handler(task):
          task_desc = f"{task_desc} - [bold]handler[/bold]"
      if task.check_mode and self.get_option('check_mode_markers'):
          task_desc = f"{task_desc} - [italic]check[/italic]"
      if task._role:
          role_name = task._role._role_name
      else:
          role_name = "None"
      return (host_name, host_label, task_desc, role_name)
  \<close>
\<close>

definition get_host_label :: "string \<Rightarrow> task \<Rightarrow> string" where
  "get_host_label host tsk =
     (case t_delegate_to tsk of
        Some d \<Rightarrow> if d \<noteq> [] \<and> d \<noteq> host then host @ '' -> '' @ d else host
      | None \<Rightarrow> host)"

definition is_task_handler :: "task \<Rightarrow> bool" where
  "is_task_handler tsk = startswith (t_str tsk) ''HANDLER:''"

definition get_task_infos :: "config \<Rightarrow> string \<Rightarrow> task \<Rightarrow> string \<times> string \<times> string \<times> string" where
  "get_task_infos cfg host tsk =
     (let d0 = (if t_name tsk \<noteq> []
                then ''[italic]'' @ t_action tsk @ ''[/italic] - '' @ t_name tsk
                else ''[italic]'' @ t_action tsk @ ''[/italic]'');
          d1 = (if is_task_handler tsk then d0 @ '' - [bold]handler[/bold]'' else d0);
          d2 = (if t_check_mode tsk \<and> check_mode_markers cfg
                then d1 @ '' - [italic]check[/italic]'' else d1)
      in (host, get_host_label host tsk, d2,
          case t_role tsk of Some r \<Rightarrow> r | None \<Rightarrow> ''None''))"

text \<open>
  \<^verbatim>\<open>
  def _handle_new_task(self, host_name, host_label, task_desc, role_name):
      self._hosts[host_name] = self._progress.add_task(task_desc, total=1, host=host_label)
      self._role_progress.update(0, description=role_name)

  def _handle_role(self, role_name):
      if self._current_role != role_name:
          self._should_print_role = True
          self._current_role = role_name
      if role_name == "None":
          self._should_print_role = False
      if self._last_printed_role == self._current_role:
          self._should_print_role = False
  \<close>
\<close>

definition handle_new_task :: "string \<Rightarrow> string \<Rightarrow> string \<Rightarrow> string \<Rightarrow> rat \<Rightarrow> state \<Rightarrow> state" where
  "handle_new_task host_name host_label task_desc role_name now st =
     (case add_task task_desc host_label now st of
        (tid, st') \<Rightarrow> st'\<lparr> hosts := (hosts st')(host_name \<mapsto> tid), role_description := role_name \<rparr>)"

definition handle_role :: "string \<Rightarrow> state \<Rightarrow> state" where
  "handle_role role_name st =
     (let st1 = (if current_role st \<noteq> Some role_name
                 then st\<lparr> should_print_role := True, current_role := Some role_name \<rparr> else st);
          st2 = (if role_name = ''None'' then st1\<lparr> should_print_role := False \<rparr> else st1)
      in if last_printed_role st2 = current_role st2 then st2\<lparr> should_print_role := False \<rparr>
         else st2)"

text \<open>
  \<^verbatim>\<open>
  def _log_task(self, message, elapsed = None):
      if self._should_print_role:
          self._log(f"[bold] --- Role - {self._current_role} ---[/bold]")
          self._last_printed_role = self._current_role
          self._should_print_role = False
      if elapsed is None:
          self._log(message)
      else:
          self._log(message, "-", Text(CallbackModule._format_float_seconds(elapsed),
                                       style="rlo.time"))
  \<close>
  A line with a time is recorded with the elapsed value that is then formatted.
\<close>

definition role_banner :: "string option \<Rightarrow> string" where
  "role_banner r =
     ''[bold] --- Role - '' @ (case r of Some n \<Rightarrow> n | None \<Rightarrow> ''None'') @ '' ---[/bold]''"

definition log_task :: "string \<Rightarrow> pyval option \<Rightarrow> state \<Rightarrow> state" where
  "log_task message elapsed st =
     (let st1 = (if should_print_role st
                 then (log_line (role_banner (current_role st)) st)
                        \<lparr> last_printed_role := current_role st, should_print_role := False \<rparr>
                 else st)
      in case elapsed of
           None \<Rightarrow> log_line message st1
         | Some e \<Rightarrow> print_out (LogElapsed message e) st1)"

text \<open>The five symbols, as their UTF-8 bytes.\<close>

definition SYMBOL_OK :: string where
  "SYMBOL_OK = [CHR 0xE2, CHR 0x9C, CHR 0x94]"

definition SYMBOL_CHANGED :: string where
  "SYMBOL_CHANGED = [CHR 0xE2, CHR 0x9A, CHR 0x99]"

definition SYMBOL_SKIPPED :: string where
  "SYMBOL_SKIPPED = [CHR 0xE2, CHR 0x8F, CHR 0xAD]"

definition SYMBOL_FAILED :: string where
  "SYMBOL_FAILED = [CHR 0xE2, CHR 0x9C, CHR 0x98]"

definition SYMBOL_UNREACHABLE :: string where
  "SYMBOL_UNREACHABLE = [CHR 0xF0, CHR 0x9F, CHR 0x96, CHR 0xA7]"

definition finished_message :: "string \<Rightarrow> bool \<Rightarrow> string \<Rightarrow> string" where
  "finished_message status changed message =
     (if status = ''ok'' then
        (if changed
         then ''[rlo.task.log.changed]'' @ SYMBOL_CHANGED @ '' '' @ message @ '' - [bold]changed[/bold]''
         else SYMBOL_OK @ '' '' @ message)
      else if status = ''skipped'' then
        ''[rlo.task.log.skipped]'' @ SYMBOL_SKIPPED @ '' '' @ message @ '' - [bold]skipped[/bold]''
      else if status = ''unreachable'' then
        ''[rlo.task.log.unreachable]'' @ SYMBOL_UNREACHABLE @ '' '' @ message
          @ '' - [bold]unreachable[/bold]''
      else if status = ''failed'' then
        ''[rlo.task.log.failed]'' @ SYMBOL_FAILED @ '' '' @ message @ '' - [bold]failed[/bold]''
      else message)"

text \<open>
  \<^verbatim>\<open>
  def _on_finished_task(self, result, status, **kwargs):
      (host_name, host_label, task_desc, role_name) = \
          self._get_task_infos(result._host, result._task)
      if self._hosts[host_name] in self._progress._tasks:
          elapsed = self._progress._tasks[self._hosts[host_name]].elapsed
          self._progress.remove_task(self._hosts[host_name])
      else:
          elapsed = 0

      self._handle_role(role_name)

      if self._should_log_task(result, status):
          message = f"[bold]{host_label}[/bold] - {task_desc}"
          ... (the message for the status)
          self._log_task(message, elapsed)

      if result.is_changed():
          self._print_diff(result)

      if self._should_print_comprehensive_task_result(result, status):
          self._print_result(result._result, result._task,
                             self._get_comprehensive_result_object)
      elif self._should_print_reduced_task_result(result, status):
          self._print_result(result._result, result._task, self._get_reduced_result_object)

      if status == 'failed' and self.get_option('show_task_path_on_failure'):
          self._print(f"[rlo.task.log.task_path][italic]task path: {result._task.get_path()}")
  \<close>
  \<^verbatim>\<open>self._hosts[host_name]\<close> is a subscript on a dictionary: it raises \<^verbatim>\<open>KeyError\<close> for a
  host name that is not a key.
\<close>

definition print_task_result :: "config \<Rightarrow> task_result \<Rightarrow> string \<Rightarrow> state \<Rightarrow> state \<times> error option" where
  "print_task_result cfg result status st =
     (if should_print_comprehensive_task_result cfg result status then
        print_result cfg (r_result result) (r_task result) (get_comprehensive_result_object cfg) st
      else if should_print_reduced_task_result cfg result status then
        print_result cfg (r_result result) (r_task result)
          (\<lambda>r t. Inr (get_reduced_result_object cfg r t)) st
      else (st, None))"

definition on_finished_task ::
  "config \<Rightarrow> rat \<Rightarrow> task_result \<Rightarrow> string \<Rightarrow> state \<Rightarrow> state \<times> error option"
where
  "on_finished_task cfg now result status st =
     (case get_task_infos cfg (r_host result) (r_task result) of
        (host_name, host_label, task_desc, role_name) \<Rightarrow>
     (case hosts st host_name of
        None \<Rightarrow> (st, Some (KeyError host_name))
      | Some tid \<Rightarrow>
          (let (elapsed, st1) =
                 (case progress_tasks st tid of
                    Some sl \<Rightarrow> (PFloat (now - start_time sl), remove_task tid st)
                  | None \<Rightarrow> (PInt 0, st));
               st2 = handle_role role_name st1;
               st3 = (if should_log_task cfg result status
                      then log_task
                             (finished_message status (r_is_changed result)
                                (''[bold]'' @ host_label @ ''[/bold] - '' @ task_desc))
                             (Some elapsed) st2
                      else st2)
           in case (if r_is_changed result then print_diff cfg result st3 else (st3, None)) of
                (st4, Some e) \<Rightarrow> (st4, Some e)
              | (st4, None) \<Rightarrow>
                  (case print_task_result cfg result status st4 of
                     (st5, Some e) \<Rightarrow> (st5, Some e)
                   | (st5, None) \<Rightarrow>
                       (if status = ''failed'' \<and> show_task_path_on_failure cfg
                        then print_out
                               (Print (''[rlo.task.log.task_path][italic]task path: ''
                                       @ t_path (r_task result))) st5
                        else st5, None)))))"

text \<open>
  \<^verbatim>\<open>
  def v2_playbook_on_play_start(self, play):
      message = f"[bold] - Playbook - {play.get_name()} -[/bold]"
      if play.check_mode:
          message = f"{message} [italic]Check Mode[/italic]"
      self._log(message)

  def v2_runner_on_start(self, host, task, **kwargs):
      (host_name, host_label, task_desc, role_name) = self._get_task_infos(host, task)
      self._handle_new_task(host_name, host_label, task_desc, role_name)
      self._live.refresh()

  def v2_playbook_on_no_hosts_matched(self):
      self._log_task("[rlo.task.log.unreachable][bold]No hosts matched")

  def v2_runner_retry(self, result):
      (host_name, host_label, task_desc, role_name) = \
          self._get_task_infos(result._host, result._task)
      message = f"[rlo.task.log.retried][bold]{host_label}[/bold] - {task_desc} - " \
                f"[bold]Failed - Retrying... " \
                f"({result._result['retries'] - result._result['attempts']} retries left)[/bold]"
      self._log_task(message)

  def v2_playbook_on_notify(self, handler, host):
      (host_name, host_label, task_desc, role_name) = self._get_task_infos(host, handler)
      message = f"[italic][bold]notified[/bold] - {task_desc} [/italic]"
      self._log(message)
  \<close>
  The engine counts retries and attempts in integers; another value under either key
  is a \<^verbatim>\<open>TypeError\<close> here.
\<close>

definition v2_playbook_on_play_start :: "string \<Rightarrow> bool \<Rightarrow> state \<Rightarrow> state" where
  "v2_playbook_on_play_start play_name play_check_mode st =
     (let message = ''[bold] - Playbook - '' @ play_name @ '' -[/bold]''
      in log_line (if play_check_mode then message @ '' [italic]Check Mode[/italic]'' else message) st)"

definition v2_runner_on_start :: "config \<Rightarrow> rat \<Rightarrow> string \<Rightarrow> task \<Rightarrow> state \<Rightarrow> state" where
  "v2_runner_on_start cfg now host tsk st =
     (case get_task_infos cfg host tsk of
        (host_name, host_label, task_desc, role_name) \<Rightarrow>
          handle_new_task host_name host_label task_desc role_name now st)"

definition v2_playbook_on_no_hosts_matched :: "state \<Rightarrow> state" where
  "v2_playbook_on_no_hosts_matched st =
     log_task ''[rlo.task.log.unreachable][bold]No hosts matched'' None st"

definition retries_left :: "pydict \<Rightarrow> error + int" where
  "retries_left result =
     (case map_of result ''retries'' of
        None \<Rightarrow> Inl (KeyError ''retries'')
      | Some r \<Rightarrow>
          (case map_of result ''attempts'' of
             None \<Rightarrow> Inl (KeyError ''attempts'')
           | Some a \<Rightarrow>
               (case (r, a) of
                  (PInt i, PInt j) \<Rightarrow> Inr (i - j)
                | _ \<Rightarrow> Inl (TypeError ''retries''))))"

definition v2_runner_retry :: "config \<Rightarrow> task_result \<Rightarrow> state \<Rightarrow> state \<times> error option" where
  "v2_runner_retry cfg result st =
     (case get_task_infos cfg (r_host result) (r_task result) of
        (host_name, host_label, task_desc, role_name) \<Rightarrow>
          (case retries_left (r_result result) of
             Inl e \<Rightarrow> (st, Some e)
           | Inr n \<Rightarrow>
               (log_task
                  (''[rlo.task.log.retried][bold]'' @ host_label @ ''[/bold] - '' @ task_desc
                   @ '' - [bold]Failed - Retrying... ('' @ str_int n @ '' retries left)[/bold]'')
                  None st, None)))"

definition v2_playbook_on_notify :: "config \<Rightarrow> task \<Rightarrow> string \<Rightarrow> state \<Rightarrow> state" where
  "v2_playbook_on_notify cfg handler host st =
     (case get_task_infos cfg host handler of
        (host_name, host_label, task_desc, role_name) \<Rightarrow>
          log_line (''[italic][bold]notified[/bold] - '' @ task_desc @ '' [/italic]'') st)"

section \<open>Event streams\<close>

text \<open>
  The events the engine sends, each with the reading of the clock when it is handled.
  The four finishing callbacks pass their status to \<^verbatim>\<open>_on_finished_task\<close>.  The engine
  catches an exception that a callback raises and goes on with the next event, so a run
  continues from the state the failed handler left.
\<close>

datatype event =
    PlayStart string bool
  | RunnerStart string task
  | RunnerOk task_result
  | RunnerSkipped task_result
  | RunnerFailed task_result
  | RunnerUnreachable task_result
  | RunnerRetry task_result
  | Notify task string
  | NoHostsMatched

fun dispatch :: "config \<Rightarrow> rat \<Rightarrow> event \<Rightarrow> state \<Rightarrow> state \<times> error option" where
  "dispatch cfg now (PlayStart play_name play_check_mode) st =
     (v2_playbook_on_play_start play_name play_check_mode st, None)"
| "dispatch cfg now (RunnerStart host tsk) st = (v2_runner_on_start cfg now host tsk st, None)"
| "dispatch cfg now (RunnerOk result) st = on_finished_task cfg now result ''ok'' st"
| "dispatch cfg now (RunnerSkipped result) st = on_finished_task cfg now result ''skipped'' st"
| "dispatch cfg now (RunnerFailed result) st = on_finished_task cfg now result ''failed'' st"
| "dispatch cfg now (RunnerUnreachable result) st =
     on_finished_task cfg now result ''unreachable'' st"
| "dispatch cfg now (RunnerRetry result) st = v2_runner_retry cfg result st"
| "dispatch cfg now (Notify handler host) st = (v2_playbook_on_notify cfg handler host st, None)"
| "dispatch cfg now NoHostsMatched st = (v2_playbook_on_no_hosts_matched st, None)"

fun run :: "config \<Rightarrow> (rat \<times> event) list \<Rightarrow> state \<Rightarrow> state" where
  "run cfg [] st = st"
| "run cfg ((now, ev) # evs) st = run cfg evs (fst (dispatch cfg now ev st))"

section \<open>Reference notions and sample inputs\<close>

text \<open>
  What the sanitizer is meant to do to one character: a blacklisted control character
  becomes its placeholder, any other character stays.
\<close>

definition placeholder :: "char \<Rightarrow> string" where
  "placeholder x =
     (if x = CHR 0x07 then ''<BEL>'' else if x = CHR 0x08 then ''<BS>''
      else if x = CHR 0x0C then ''<FF>'' else if x = CHR 0x0D then ''<CR>''
      else if x = CHR 0x1B then ''<ESC>'' else if x = CHR 0x7F then ''<DEL>'' else [x])"

text \<open>
  A task of a role, a result of it on one host, and a quiet configuration whose
  interpreter can import the built-in transformers.  The sample
  \<^verbatim>\<open>strip_internal_keys\<close> drops the top-level keys that start with \<^verbatim>\<open>_ansible_\<close>.
\<close>

definition sample_task :: task where
  "sample_task =
     \<lparr> t_name = ''Install'', t_action = ''command'', t_no_log = False, t_check_mode = False,
       t_delegate_to = None, t_role = Some ''web'', t_vars = [], t_loop = PNone,
       t_str = ''TASK: Install'', t_path = ''site.yml:3'' \<rparr>"

definition sample_result :: task_result where
  "sample_result =
     \<lparr> r_host = ''alpha'', r_task = sample_task, r_result = [(''msg'', PStr ''done'')],
       r_is_changed = False \<rparr>"

definition sample_config :: config where
  "sample_config =
     \<lparr> verbosity = 0, display_skipped_hosts = False, display_ok_hosts = False,
       show_task_path_on_failure = False, check_mode_markers = False,
       rlo_transformer = ''/Identity'',
       strip_internal_keys = filter (\<lambda>(k, v). \<not> startswith k ''_ansible_''),
       get_diff = (\<lambda>ds. []),
       modules = (\<lambda>m. if m = ''rlo.transformers''
                       then Some (\<lambda>n. if n = ''Identity'' then Some (Transformer Identity_transform)
                                       else if n = ''Dummy'' then Some (Transformer Dummy_transform)
                                       else None)
                       else None) \<rparr>"

text \<open>The result payloads among what was printed, in order.\<close>

fun payloads :: "printed list \<Rightarrow> pyval list" where
  "payloads [] = []"
| "payloads (PrintResult v # xs) = v # payloads xs"
| "payloads (x # xs) = payloads xs"

text \<open>
  A value built from dictionaries, lists, texts, numbers, booleans and \<^verbatim>\<open>None\<close> only:
  no tuple, no generator, no object of another type.
\<close>

fun plain :: "pyval \<Rightarrow> bool" where
  "plain (PList xs) = list_all plain xs"
| "plain (PDict kvs) = list_all (\<lambda>(k, v). plain v) kvs"
| "plain (PTuple xs) = False"
| "plain (PGen xs) = False"
| "plain (POther t) = False"
| "plain v = True"

text \<open>
  What handling one finishing event may add to the payloads: \<open>ps\<close> is what it added.
  At most one payload; a payload is the comprehensive object when the comprehensive
  predicate holds, and else the reduced object under the reduced predicate, each after
  the sanitizer and the user's transformer; and after a normal return a non-empty object
  of the selected form has been printed.
\<close>

definition payload_rule ::
  "config \<Rightarrow> task_result \<Rightarrow> string \<Rightarrow> state \<Rightarrow> state \<Rightarrow> error option \<Rightarrow> pyval list \<Rightarrow> bool" where
  "payload_rule cfg result status st st' err ps =
    (payloads (console st') = payloads (console st) @ ps \<and> length ps \<le> 1
     \<and> (ps \<noteq> [] \<longrightarrow> (\<exists>cb. transformer_user_callback st' = Some cb \<and>
          (if should_print_comprehensive_task_result cfg result status
           then \<exists>obj. get_comprehensive_result_object cfg (r_result result) (r_task result) = Inr obj
                  \<and> ps = [transform_dict (sanitize_dict (PDict obj)) cb]
           else should_print_reduced_task_result cfg result status
                \<and> ps = [transform_dict (sanitize_dict
                      (PDict (get_reduced_result_object cfg (r_result result) (r_task result)))) cb])))
     \<and> (err = None \<longrightarrow> should_print_comprehensive_task_result cfg result status \<longrightarrow>
           (\<exists>obj. get_comprehensive_result_object cfg (r_result result) (r_task result) = Inr obj
              \<and> (obj \<noteq> [] \<longrightarrow> ps \<noteq> [])))
     \<and> (err = None \<longrightarrow> \<not> should_print_comprehensive_task_result cfg result status \<longrightarrow>
           should_print_reduced_task_result cfg result status \<longrightarrow>
           get_reduced_result_object cfg (r_result result) (r_task result) \<noteq> [] \<longrightarrow> ps \<noteq> []))"

text \<open>The sample host has started the sample task at time 0.\<close>

definition sample_started :: state where
  "sample_started = v2_runner_on_start sample_config 0 ''alpha'' sample_task (init True)"

subsection \<open>Slots and hosts\<close>

text \<open>
  The host table and the progress display's table and index: the part of the state
  that the life cycle of the slots reads and writes.
\<close>

definition slots :: "state \<Rightarrow> (string \<rightharpoonup> nat) \<times> (nat \<rightharpoonup> slot) \<times> nat" where
  "slots st = (hosts st, progress_tasks st, task_index st)"

text \<open>
  A slot is live while the progress display still holds a task under its id.
\<close>

definition live :: "state \<Rightarrow> nat \<Rightarrow> bool" where
  "live st i = (progress_tasks st i \<noteq> None)"

text \<open>
  The ids in use are ids already handed out, and no two hosts point to one id.
\<close>

definition ids_fresh :: "state \<Rightarrow> bool" where
  "ids_fresh st =
     ((\<forall>h i. hosts st h = Some i \<longrightarrow> i < task_index st)
      \<and> (\<forall>i. live st i \<longrightarrow> i < task_index st)
      \<and> (\<forall>h h' i. hosts st h = Some i \<and> hosts st h' = Some i \<longrightarrow> h = h'))"

text \<open>
  A live slot that is the current slot of no host: no finishing event can name it.
\<close>

definition orphaned :: "state \<Rightarrow> nat \<Rightarrow> bool" where
  "orphaned st i = (live st i \<and> (\<forall>h. hosts st h \<noteq> Some i))"

text \<open>
  An event restarts a running host when it is a start for a host that is in the set
  of running hosts.
\<close>

fun restarts :: "string set \<Rightarrow> event \<Rightarrow> bool" where
  "restarts R (RunnerStart h tsk) = (h \<in> R)"
| "restarts R ev = False"

text \<open>
  The hosts running after an event: a start adds its host, a finishing event removes
  its host.
\<close>

fun running_after :: "string set \<Rightarrow> event \<Rightarrow> string set" where
  "running_after R (RunnerStart h tsk) = insert h R"
| "running_after R (RunnerOk result) = R - {r_host result}"
| "running_after R (RunnerSkipped result) = R - {r_host result}"
| "running_after R (RunnerFailed result) = R - {r_host result}"
| "running_after R (RunnerUnreachable result) = R - {r_host result}"
| "running_after R ev = R"

text \<open>
  A stream in which every start of a host is followed by a finishing event of that host
  before the host starts again, from a given set of running hosts.
\<close>

fun matched :: "string set \<Rightarrow> (rat \<times> event) list \<Rightarrow> bool" where
  "matched R [] = True"
| "matched R ((now, ev) # evs) = (\<not> restarts R ev \<and> matched (running_after R ev) evs)"

text \<open>
  Every live slot is the current slot of a running host, and every running host has a
  live current slot.
\<close>

definition tidy :: "string set \<Rightarrow> state \<Rightarrow> bool" where
  "tidy R st =
     (ids_fresh st
      \<and> (\<forall>i. live st i \<longrightarrow> (\<exists>h. h \<in> R \<and> hosts st h = Some i))
      \<and> (\<forall>h. h \<in> R \<longrightarrow> (\<exists>i. hosts st h = Some i \<and> live st i)))"

subsection \<open>Role banners\<close>















section \<open>Properties\<close>

subsection \<open>The log-line decision\<close>

text \<open>
  C1.  For every result, status and configuration, \<open>should_log_task\<close> answers true exactly
  when the verbosity is above 1, or the task is a \<^verbatim>\<open>debug\<close> action whose \<^verbatim>\<open>no_log\<close> is
  false, or the status is \<^verbatim>\<open>failed\<close> or \<^verbatim>\<open>unreachable\<close>, or the status is \<^verbatim>\<open>skipped\<close> and
  \<^verbatim>\<open>display_skipped_hosts\<close> is set or the verbosity is above 2, or the status is \<^verbatim>\<open>ok\<close> and
  the result reports a change or \<^verbatim>\<open>display_ok_hosts\<close> is set or the verbosity is above 2.
  In particular, at verbosity 0 and for a task that is not such a \<^verbatim>\<open>debug\<close> action: false
  for \<^verbatim>\<open>ok\<close> with no change and \<^verbatim>\<open>display_ok_hosts\<close> unset; true for \<^verbatim>\<open>failed\<close> (for any
  task); true for \<^verbatim>\<open>skipped\<close> with \<^verbatim>\<open>display_skipped_hosts\<close> set (for any task); false for
  \<^verbatim>\<open>skipped\<close> with \<^verbatim>\<open>display_skipped_hosts\<close> unset.
\<close>

theorem should_log_task_decision:
  "(should_log_task cfg result status \<longleftrightarrow>
      (verbosity cfg > 1
       \<or> (t_action (r_task result) = ''debug'' \<and> \<not> t_no_log (r_task result))
       \<or> status = ''failed'' \<or> status = ''unreachable''
       \<or> (status = ''skipped'' \<and> (display_skipped_hosts cfg \<or> verbosity cfg > 2))
       \<or> (status = ''ok'' \<and> (r_is_changed result \<or> display_ok_hosts cfg \<or> verbosity cfg > 2))))
   \<and> (verbosity cfg = 0 \<and> \<not> (t_action (r_task result) = ''debug'' \<and> \<not> t_no_log (r_task result))
        \<and> \<not> r_is_changed result \<and> \<not> display_ok_hosts cfg
        \<longrightarrow> \<not> should_log_task cfg result ''ok'')
   \<and> (verbosity cfg = 0 \<longrightarrow> should_log_task cfg result ''failed'')
   \<and> (verbosity cfg = 0 \<and> display_skipped_hosts cfg \<longrightarrow> should_log_task cfg result ''skipped'')
   \<and> (verbosity cfg = 0 \<and> \<not> (t_action (r_task result) = ''debug'' \<and> \<not> t_no_log (r_task result))
        \<and> \<not> display_skipped_hosts cfg
        \<longrightarrow> \<not> should_log_task cfg result ''skipped'')"
  by (simp add: should_log_task_def run_is_verbose_def)

theorem should_log_task_decision_witness:
  "\<not> should_log_task sample_config sample_result ''ok''
   \<and> should_log_task sample_config sample_result ''failed''
   \<and> should_log_task (sample_config\<lparr> display_skipped_hosts := True \<rparr>) sample_result ''skipped''
   \<and> \<not> should_log_task sample_config sample_result ''skipped''"
  using should_log_task_decision [of sample_config sample_result "''ok''"]
    should_log_task_decision
      [of "sample_config\<lparr> display_skipped_hosts := True \<rparr>" sample_result "''skipped''"]
  by (simp add: sample_config_def sample_result_def sample_task_def)

subsection \<open>The sanitizer\<close>

lemma replace_append: "replace c r (xs @ ys) = replace c r xs @ replace c r ys"
  by (induction xs) auto

lemma Sanitizer_transform_Nil: "Sanitizer_transform [] = []"
  by (simp add: Sanitizer_transform_def BLACKLISTED_BYTES_def)

lemma Sanitizer_transform_append:
  "Sanitizer_transform (xs @ ys) = Sanitizer_transform xs @ Sanitizer_transform ys"
  by (simp add: Sanitizer_transform_def BLACKLISTED_BYTES_def replace_append)

lemma Sanitizer_transform_single: "Sanitizer_transform [x] = placeholder x"
  by (simp add: Sanitizer_transform_def BLACKLISTED_BYTES_def placeholder_def)

lemma Sanitizer_transform_Cons:
  "Sanitizer_transform (x # xs) = placeholder x @ Sanitizer_transform xs"
  using Sanitizer_transform_append [of "[x]" xs] by (simp add: Sanitizer_transform_single)

lemma Sanitizer_transform_concat: "Sanitizer_transform s = concat (map placeholder s)"
  by (induction s) (simp_all add: Sanitizer_transform_Nil Sanitizer_transform_Cons)

lemma Sanitizer_transform_placeholder: "Sanitizer_transform (placeholder x) = placeholder x"
  by (simp add: placeholder_def Sanitizer_transform_Cons Sanitizer_transform_Nil)

lemma Sanitizer_transform_idem:
  "Sanitizer_transform (Sanitizer_transform s) = Sanitizer_transform s"
  by (induction s)
    (simp_all add: Sanitizer_transform_Nil Sanitizer_transform_Cons Sanitizer_transform_append
      Sanitizer_transform_placeholder)

lemma placeholder_clean:
  "set (placeholder x) \<inter> {CHR 0x07, CHR 0x08, CHR 0x0C, CHR 0x0D, CHR 0x1B, CHR 0x7F} = {}"
  by (simp add: placeholder_def)

lemma Sanitizer_transform_clean:
  "set (Sanitizer_transform s) \<inter> {CHR 0x07, CHR 0x08, CHR 0x0C, CHR 0x0D, CHR 0x1B, CHR 0x7F} = {}"
proof (induction s)
  case Nil
  show ?case by (simp add: Sanitizer_transform_Nil)
next
  case (Cons x xs)
  have "set (Sanitizer_transform (x # xs)) = set (placeholder x) \<union> set (Sanitizer_transform xs)"
    by (simp add: Sanitizer_transform_Cons)
  with Cons placeholder_clean [of x] show ?case by (simp add: Int_Un_distrib2)
qed

text \<open>
  C4.  For every text, the sanitizer replaces every occurrence of BEL, BS, FF, CR, ESC and
  DEL by its placeholder and leaves every other character (tab and line feed among them)
  where it is: the result is the concatenation of the per-character placeholders, and
  none of the six characters is left.  It is idempotent, and it takes \<^verbatim>\<open>a\<close> BEL \<^verbatim>\<open>b\<close> ESC
  \<^verbatim>\<open>c\<close> to \<^verbatim>\<open>a<BEL>b<ESC>c\<close>.
\<close>

theorem Sanitizer_transform_correct:
  "Sanitizer_transform s = concat (map placeholder s)
   \<and> placeholder (CHR 0x07) = ''<BEL>'' \<and> placeholder (CHR 0x08) = ''<BS>''
   \<and> placeholder (CHR 0x0C) = ''<FF>'' \<and> placeholder (CHR 0x0D) = ''<CR>''
   \<and> placeholder (CHR 0x1B) = ''<ESC>'' \<and> placeholder (CHR 0x7F) = ''<DEL>''
   \<and> placeholder (CHR 0x09) = [CHR 0x09] \<and> placeholder (CHR 0x0A) = [CHR 0x0A]
   \<and> set (Sanitizer_transform s)
        \<inter> {CHR 0x07, CHR 0x08, CHR 0x0C, CHR 0x0D, CHR 0x1B, CHR 0x7F} = {}
   \<and> Sanitizer_transform (Sanitizer_transform s) = Sanitizer_transform s
   \<and> Sanitizer_transform [CHR ''a'', CHR 0x07, CHR ''b'', CHR 0x1B, CHR ''c''] = ''a<BEL>b<ESC>c''"
proof -
  have "Sanitizer_transform [CHR ''a'', CHR 0x07, CHR ''b'', CHR 0x1B, CHR ''c''] = ''a<BEL>b<ESC>c''"
    by (simp add: Sanitizer_transform_def BLACKLISTED_BYTES_def)
  moreover have "placeholder (CHR 0x09) = [CHR 0x09] \<and> placeholder (CHR 0x0A) = [CHR 0x0A]"
    by (simp add: placeholder_def)
  moreover have "placeholder (CHR 0x07) = ''<BEL>'' \<and> placeholder (CHR 0x08) = ''<BS>''
      \<and> placeholder (CHR 0x0C) = ''<FF>'' \<and> placeholder (CHR 0x0D) = ''<CR>''
      \<and> placeholder (CHR 0x1B) = ''<ESC>'' \<and> placeholder (CHR 0x7F) = ''<DEL>''"
    by (simp add: placeholder_def)
  ultimately show ?thesis
    using Sanitizer_transform_concat [of s] Sanitizer_transform_clean [of s]
      Sanitizer_transform_idem [of s]
    by blast
qed

theorem Sanitizer_transform_correct_witness:
  "Sanitizer_transform [CHR 0x09, CHR 0x0D, CHR 0x0A, CHR 0x7F] = [CHR 0x09] @ ''<CR>'' @ [CHR 0x0A] @ ''<DEL>''"
  using Sanitizer_transform_correct [of "[CHR 0x09, CHR 0x0D, CHR 0x0A, CHR 0x7F]"]
  by (simp add: placeholder_def)

subsection \<open>Censorship and the reduced result\<close>

text \<open>
  C7.  For a task with \<^verbatim>\<open>no_log\<close> set, at verbosity 0, whatever the result is, both result
  shapers return the fixed censored object: the one key \<^verbatim>\<open>censored\<close> with its fixed
  message, and nothing of the result.
\<close>

theorem no_log_is_censored:
  assumes "t_no_log tsk" and "verbosity cfg = 0"
  shows "get_comprehensive_result_object cfg result tsk = Inr censored_no_log_response
       \<and> get_reduced_result_object cfg result tsk = censored_no_log_response
       \<and> map fst censored_no_log_response = [''censored'']"
  using assms
  by (simp add: get_comprehensive_result_object_def get_reduced_result_object_def
      run_is_verbose_def censored_no_log_response_def)

theorem no_log_is_censored_witness:
  "get_comprehensive_result_object sample_config [(''stdout'', PStr ''secret'')]
       (sample_task\<lparr> t_no_log := True \<rparr>) = Inr censored_no_log_response
   \<and> get_reduced_result_object sample_config [(''stdout'', PStr ''secret'')]
       (sample_task\<lparr> t_no_log := True \<rparr>) = censored_no_log_response"
  using no_log_is_censored
    [of "sample_task\<lparr> t_no_log := True \<rparr>" sample_config "[(''stdout'', PStr ''secret'')]"]
  by (simp add: sample_config_def sample_task_def)

lemma map_of_set_item: "map_of (set_item k v d) k' = (if k' = k then Some v else map_of d k')"
  by (simp add: set_item_def update_conv')

lemma distinct_set_item: "distinct (map fst d) \<Longrightarrow> distinct (map fst (set_item k v d))"
  by (simp add: set_item_def distinct_update)

lemma reduced_result_lookup:
  assumes "\<not> (t_no_log tsk \<and> \<not> verbosity cfg > 2)"
  shows "map_of (get_reduced_result_object cfg r tsk) k =
     (if k = ''task_vars'' then (if t_vars tsk \<noteq> [] then Some (PDict (t_vars tsk)) else None)
      else if k = ''msg'' then
        (case map_of r ''msg'' of
           Some v \<Rightarrow> if v = PStr ''All items completed'' then None else Some v
         | None \<Rightarrow> None)
      else if k = ''stdout'' \<or> k = ''stderr'' then map_of r k
      else None)"
  using assms
  by (auto simp add: get_reduced_result_object_def run_is_verbose_def copy_key_def
      map_of_set_item Let_def split: option.splits)

lemma reduced_result_distinct: "distinct (map fst (get_reduced_result_object cfg r tsk))"
  by (auto simp add: get_reduced_result_object_def copy_key_def censored_no_log_response_def
      distinct_set_item Let_def split: option.splits)

text \<open>
  C8.  When the task is not censored (its \<^verbatim>\<open>no_log\<close> is false, or the verbosity is above
  2), the reduced result object holds, each key once: \<^verbatim>\<open>stdout\<close> and \<^verbatim>\<open>stderr\<close> with the
  result's values when the result has them, \<^verbatim>\<open>msg\<close> with the result's value when the result
  has one other than the text \<^verbatim>\<open>All items completed\<close>, \<^verbatim>\<open>task_vars\<close> with the task's
  variables when the task has some, and no other key.  When the object is empty,
  \<open>print_result\<close> prints nothing, changes nothing and raises nothing.
\<close>

theorem reduced_result_contents:
  assumes "\<not> (t_no_log tsk \<and> \<not> verbosity cfg > 2)"
  shows "map_of (get_reduced_result_object cfg r tsk) k =
           (if k = ''task_vars'' then (if t_vars tsk \<noteq> [] then Some (PDict (t_vars tsk)) else None)
            else if k = ''msg'' then
              (case map_of r ''msg'' of
                 Some v \<Rightarrow> if v = PStr ''All items completed'' then None else Some v
               | None \<Rightarrow> None)
            else if k = ''stdout'' \<or> k = ''stderr'' then map_of r k
            else None)
       \<and> distinct (map fst (get_reduced_result_object cfg r tsk))
       \<and> (get_reduced_result_object cfg r tsk = [] \<longrightarrow>
            print_result cfg r tsk (\<lambda>r t. Inr (get_reduced_result_object cfg r t)) st = (st, None))"
  using reduced_result_lookup [OF assms, of r k] reduced_result_distinct [of cfg r tsk]
  by (simp add: print_result_def)

theorem reduced_result_contents_witness:
  "map_of (get_reduced_result_object sample_config
             [(''msg'', PStr ''All items completed''), (''rc'', PInt 0)] sample_task) ''msg'' = None
   \<and> get_reduced_result_object sample_config
        [(''msg'', PStr ''All items completed''), (''rc'', PInt 0)] sample_task = []
   \<and> print_result sample_config [(''msg'', PStr ''All items completed''), (''rc'', PInt 0)]
        sample_task (\<lambda>r t. Inr (get_reduced_result_object sample_config r t)) (init True)
      = (init True, None)"
proof -
  have e: "get_reduced_result_object sample_config
        [(''msg'', PStr ''All items completed''), (''rc'', PInt 0)] sample_task = []"
    by (simp add: get_reduced_result_object_def sample_config_def sample_task_def
        run_is_verbose_def copy_key_def)
  have h: "\<not> (t_no_log sample_task \<and> \<not> verbosity sample_config > 2)"
    by (simp add: sample_task_def)
  show ?thesis
    using reduced_result_contents
      [OF h, of "[(''msg'', PStr ''All items completed''), (''rc'', PInt 0)]" "''msg''" "init True"]
      e
    by simp
qed

subsection \<open>One result payload for a finished task\<close>

lemma payloads_append: "payloads (xs @ ys) = payloads xs @ payloads ys"
  by (induction xs rule: payloads.induct) simp_all

lemma console_transform_dict_user:
  "transform_dict_user cfg v st = (r, st') \<Longrightarrow> console st' = console st"
  by (auto simp: transform_dict_user_def split: option.splits list.splits sum.splits)

lemma console_transform_all:
  "transform_all cfg ds st = (r, st') \<Longrightarrow> console st' = console st"
proof (induction ds arbitrary: st r st')
  case Nil
  then show ?case by simp
next
  case (Cons d ds)
  then show ?case
    by (auto split: prod.splits sum.splits dest: console_transform_dict_user)
qed

lemma payloads_print_single_diff:
  "print_single_diff cfg res st = (st', e) \<Longrightarrow> payloads (console st') = payloads (console st)"
  by (auto simp: print_single_diff_def Let_def print_out_def payloads_append
      split: option.splits prod.splits sum.splits if_splits dest: console_transform_all)

lemma payloads_print_diff_items:
  "print_diff_items cfg items st = (st', e) \<Longrightarrow> payloads (console st') = payloads (console st)"
proof (induction items arbitrary: st st' e)
  case Nil
  then show ?case by simp
next
  case (Cons res rest)
  show ?case
  proof (cases "item_wants_diff res")
    case (Inl x)
    with Cons.prems show ?thesis by simp
  next
    case (Inr w)
    show ?thesis
    proof (cases w)
      case None
      with Cons.prems Inr have "print_diff_items cfg rest st = (st', e)" by simp
      then show ?thesis by (rule Cons.IH)
    next
      case (Some d)
      obtain st1 e1 where 1: "print_single_diff cfg d st = (st1, e1)" by (metis surj_pair)
      note p1 = payloads_print_single_diff [OF 1]
      show ?thesis
      proof (cases e1)
        case None
        with Cons.prems Inr Some 1 have "print_diff_items cfg rest st1 = (st', e)" by simp
        from Cons.IH [OF this] p1 show ?thesis by simp
      next
        case (Some x)
        with Cons.prems Inr \<open>w = Some d\<close> 1 have "st' = st1" by simp
        with p1 show ?thesis by simp
      qed
    qed
  qed
qed

lemma payloads_print_diff:
  "print_diff cfg result st = (st', e) \<Longrightarrow> payloads (console st') = payloads (console st)"
  by (auto simp: print_diff_def split: if_splits option.splits sum.splits
      dest: payloads_print_diff_items payloads_print_single_diff)

lemma payloads_log_task: "payloads (console (log_task m e st)) = payloads (console st)"
  by (auto simp: log_task_def log_line_def print_out_def payloads_append Let_def split: option.splits)

lemma console_handle_role: "console (handle_role r st) = console st"
  by (simp add: handle_role_def Let_def)

lemma console_remove_task: "console (remove_task t st) = console st"
  by (simp add: remove_task_def)


lemma payloads_print_result:
  assumes "print_result cfg r tsk pre st = (st', err)"
  shows "\<exists>ps. payloads (console st') = payloads (console st) @ ps \<and> length ps \<le> 1
     \<and> (ps \<noteq> [] \<longrightarrow> (\<exists>cb obj. transformer_user_callback st' = Some cb \<and> pre r tsk = Inr obj
            \<and> ps = [transform_dict (sanitize_dict (PDict obj)) cb]))
     \<and> (err = None \<longrightarrow> (\<exists>obj. pre r tsk = Inr obj \<and> (obj \<noteq> [] \<longrightarrow> ps \<noteq> [])))"
  using assms
  by (auto simp: print_result_def transform_dict_user_def print_out_def payloads_append
      split: sum.splits if_splits option.splits list.splits prod.splits)

lemma payloads_print_task_result:
  assumes "print_task_result cfg result status st = (st', err)"
  shows "\<exists>ps. payloads (console st') = payloads (console st) @ ps \<and> length ps \<le> 1
     \<and> (ps \<noteq> [] \<longrightarrow> (\<exists>cb. transformer_user_callback st' = Some cb \<and>
          (if should_print_comprehensive_task_result cfg result status
           then \<exists>obj. get_comprehensive_result_object cfg (r_result result) (r_task result) = Inr obj
                  \<and> ps = [transform_dict (sanitize_dict (PDict obj)) cb]
           else should_print_reduced_task_result cfg result status
                \<and> ps = [transform_dict (sanitize_dict
                      (PDict (get_reduced_result_object cfg (r_result result) (r_task result)))) cb])))
     \<and> (err = None \<longrightarrow> should_print_comprehensive_task_result cfg result status \<longrightarrow>
           (\<exists>obj. get_comprehensive_result_object cfg (r_result result) (r_task result) = Inr obj
              \<and> (obj \<noteq> [] \<longrightarrow> ps \<noteq> [])))
     \<and> (err = None \<longrightarrow> \<not> should_print_comprehensive_task_result cfg result status \<longrightarrow>
           should_print_reduced_task_result cfg result status \<longrightarrow>
           get_reduced_result_object cfg (r_result result) (r_task result) \<noteq> [] \<longrightarrow> ps \<noteq> [])"
proof (cases "should_print_comprehensive_task_result cfg result status")
  case True
  with assms have "print_result cfg (r_result result) (r_task result)
      (get_comprehensive_result_object cfg) st = (st', err)"
    by (simp add: print_task_result_def)
  from payloads_print_result [OF this] True show ?thesis by auto
next
  case False
  show ?thesis
  proof (cases "should_print_reduced_task_result cfg result status")
    case True
    with False assms have "print_result cfg (r_result result) (r_task result)
        (\<lambda>r t. Inr (get_reduced_result_object cfg r t)) st = (st', err)"
      by (simp add: print_task_result_def)
    from payloads_print_result [OF this] False True show ?thesis by auto
  next
    case r: False
    with False assms show ?thesis by (simp add: print_task_result_def)
  qed
qed


lemma payload_rule_cong:
  "payloads (console st0) = payloads (console st) \<Longrightarrow> payload_rule cfg result status st0 st' err ps
   \<Longrightarrow> payload_rule cfg result status st st' err ps"
  by (simp add: payload_rule_def)

lemma payload_rule_print_task_result:
  "print_task_result cfg result status st = (st', err) \<Longrightarrow> \<exists>ps. payload_rule cfg result status st st' err ps"
  unfolding payload_rule_def by (rule payloads_print_task_result)

lemma payload_rule_print_out:
  "payload_rule cfg result status st st' err ps \<Longrightarrow>
   payload_rule cfg result status st (print_out (Print m) st') err ps"
  by (simp add: payload_rule_def print_out_def payloads_append)

lemma payload_rule_none:
  "payloads (console st') = payloads (console st) \<Longrightarrow> err \<noteq> None \<Longrightarrow>
   payload_rule cfg result status st st' err []"
  by (auto simp: payload_rule_def)

lemma on_finished_task_unfold:
  assumes ti: "get_task_infos cfg (r_host result) (r_task result) = (hn, hl, td, rn)"
    and h: "hosts st hn = Some tid"
    and st1: "st1 = (case progress_tasks st tid of Some sl \<Rightarrow> remove_task tid st | None \<Rightarrow> st)"
    and el: "elapsed = (case progress_tasks st tid of
        Some sl \<Rightarrow> PFloat (now - start_time sl) | None \<Rightarrow> PInt 0)"
    and st3: "st3 = (if should_log_task cfg result status
        then log_task (finished_message status (r_is_changed result) (''[bold]'' @ hl @ ''[/bold] - '' @ td))
               (Some elapsed) (handle_role rn st1)
        else handle_role rn st1)"
  shows "on_finished_task cfg now result status st =
        (case (if r_is_changed result then print_diff cfg result st3 else (st3, None)) of
           (st4, Some e) \<Rightarrow> (st4, Some e)
         | (st4, None) \<Rightarrow> (case print_task_result cfg result status st4 of
             (st5, Some e) \<Rightarrow> (st5, Some e)
           | (st5, None) \<Rightarrow>
               (if status = ''failed'' \<and> show_task_path_on_failure cfg
                then print_out (Print (''[rlo.task.log.task_path][italic]task path: '' @ t_path (r_task result))) st5
                else st5, None)))"
proof (cases "progress_tasks st tid")
  case None
  then show ?thesis
    unfolding on_finished_task_def ti st1 el st3 by (simp add: h)
next
  case (Some sl)
  then show ?thesis
    unfolding on_finished_task_def ti st1 el st3 by (simp add: h)
qed


lemma on_finished_task_payload_rule:
  assumes "on_finished_task cfg now result status st = (st', err)"
  shows "\<exists>ps. payload_rule cfg result status st st' err ps"
proof -
  obtain hn hl td rn where ti: "get_task_infos cfg (r_host result) (r_task result) = (hn, hl, td, rn)"
    by (metis prod_cases4)
  show ?thesis
  proof (cases "hosts st hn")
    case None
    with assms ti have "st' = st" "err \<noteq> None"
      by (auto simp: on_finished_task_def)
    then show ?thesis using payload_rule_none [of st st err] by blast
  next
    case (Some tid)
    define st1 where "st1 = (case progress_tasks st tid of Some sl \<Rightarrow> remove_task tid st | None \<Rightarrow> st)"
    define elapsed where "elapsed = (case progress_tasks st tid of
        Some sl \<Rightarrow> PFloat (now - start_time sl) | None \<Rightarrow> PInt 0)"
    define st3 where "st3 = (if should_log_task cfg result status
        then log_task (finished_message status (r_is_changed result) (''[bold]'' @ hl @ ''[/bold] - '' @ td))
               (Some elapsed) (handle_role rn st1)
        else handle_role rn st1)"
    have p1: "console st1 = console st"
      by (simp add: st1_def console_remove_task split: option.splits)
    have p3: "payloads (console st3) = payloads (console st)"
      by (simp add: st3_def payloads_log_task console_handle_role p1)
    obtain st4 e4 where d: "(if r_is_changed result then print_diff cfg result st3 else (st3, None)) = (st4, e4)"
      by (metis surj_pair)
    have p4: "payloads (console st4) = payloads (console st)"
    proof (cases "r_is_changed result")
      case True
      with d have "print_diff cfg result st3 = (st4, e4)" by simp
      from payloads_print_diff [OF this] p3 show ?thesis by simp
    next
      case False
      with d p3 show ?thesis by simp
    qed
    note unfold = on_finished_task_unfold [OF ti Some st1_def elapsed_def st3_def]
    show ?thesis
    proof (cases e4)
      case (Some e)
      with unfold assms d have "st' = st4" "err \<noteq> None" by auto
      with p4 payload_rule_none [of st4 st err] show ?thesis by blast
    next
      case None
      obtain st5 e5 where p: "print_task_result cfg result status st4 = (st5, e5)"
        by (metis surj_pair)
      from payload_rule_print_task_result [OF p] obtain ps
        where r: "payload_rule cfg result status st4 st5 e5 ps" by blast
      then have r': "payload_rule cfg result status st st5 e5 ps"
        using p4 payload_rule_cong by metis
      show ?thesis
      proof (cases e5)
        case (Some e)
        with unfold None p assms d have "st' = st5" "err = e5" by auto
        with r' show ?thesis by blast
      next
        case n5: None
        from unfold None p assms d n5 have "err = e5" by (simp split: if_splits)
        moreover from unfold None p assms d n5 have "st' = st5 \<or> st' = print_out (Print (''[rlo.task.log.task_path][italic]task path: '' @ t_path (r_task result))) st5"
          by (simp split: if_splits)
        ultimately show ?thesis using r' payload_rule_print_out by blast
      qed
    qed
  qed
qed

lemma comprehensive_predicate:
  "should_print_comprehensive_task_result cfg result status \<longleftrightarrow>
     (verbosity cfg > 3 \<or> status = ''failed''
      \<or> (t_action (r_task result) = ''debug'' \<and> \<not> t_no_log (r_task result)))"
  by (simp add: should_print_comprehensive_task_result_def run_is_verbose_def)

lemma reduced_predicate:
  "should_print_reduced_task_result cfg result status \<longleftrightarrow>
     (verbosity cfg > 1 \<or> (status = ''ok'' \<and> r_is_changed result))"
  by (simp add: should_print_reduced_task_result_def run_is_verbose_def)

text \<open>
  C2.  The comprehensive predicate holds exactly when the verbosity is above 3, or the
  status is \<^verbatim>\<open>failed\<close>, or the task is a \<^verbatim>\<open>debug\<close> action whose \<^verbatim>\<open>no_log\<close> is false; the reduced
  predicate holds exactly when the verbosity is above 1, or the status is \<^verbatim>\<open>ok\<close> and the
  result reports a change.  Handling a finishing event adds at most one result payload
  to what is printed.  When one is added it is the comprehensive object if the
  comprehensive condition holds (whether or not the reduced condition holds too), and
  otherwise the reduced object, and then the reduced condition holds; so when neither
  condition holds none is added, whatever else is logged.  After a normal return the
  selected object has been printed unless it is empty.
\<close>

theorem one_result_payload:
  assumes "on_finished_task cfg now result status st = (st', err)"
  shows "(should_print_comprehensive_task_result cfg result status \<longleftrightarrow>
            (verbosity cfg > 3 \<or> status = ''failed''
             \<or> (t_action (r_task result) = ''debug'' \<and> \<not> t_no_log (r_task result))))
     \<and> (should_print_reduced_task_result cfg result status \<longleftrightarrow>
            (verbosity cfg > 1 \<or> (status = ''ok'' \<and> r_is_changed result)))
     \<and> (\<exists>ps. payloads (console st') = payloads (console st) @ ps \<and> length ps \<le> 1
     \<and> (ps \<noteq> [] \<longrightarrow> (\<exists>cb. transformer_user_callback st' = Some cb \<and>
          (if verbosity cfg > 3 \<or> status = ''failed''
              \<or> (t_action (r_task result) = ''debug'' \<and> \<not> t_no_log (r_task result))
           then \<exists>obj. get_comprehensive_result_object cfg (r_result result) (r_task result) = Inr obj
                  \<and> ps = [transform_dict (sanitize_dict (PDict obj)) cb]
           else (verbosity cfg > 1 \<or> (status = ''ok'' \<and> r_is_changed result))
                \<and> ps = [transform_dict (sanitize_dict
                      (PDict (get_reduced_result_object cfg (r_result result) (r_task result)))) cb])))
     \<and> (err = None \<longrightarrow>
           (verbosity cfg > 3 \<or> status = ''failed''
            \<or> (t_action (r_task result) = ''debug'' \<and> \<not> t_no_log (r_task result))) \<longrightarrow>
           (\<exists>obj. get_comprehensive_result_object cfg (r_result result) (r_task result) = Inr obj
              \<and> (obj \<noteq> [] \<longrightarrow> ps \<noteq> [])))
     \<and> (err = None \<longrightarrow>
           \<not> (verbosity cfg > 3 \<or> status = ''failed''
              \<or> (t_action (r_task result) = ''debug'' \<and> \<not> t_no_log (r_task result))) \<longrightarrow>
           (verbosity cfg > 1 \<or> (status = ''ok'' \<and> r_is_changed result)) \<longrightarrow>
           get_reduced_result_object cfg (r_result result) (r_task result) \<noteq> [] \<longrightarrow> ps \<noteq> []))"
proof (intro conjI)
  show "should_print_comprehensive_task_result cfg result status \<longleftrightarrow>
            (verbosity cfg > 3 \<or> status = ''failed''
             \<or> (t_action (r_task result) = ''debug'' \<and> \<not> t_no_log (r_task result)))"
    by (rule comprehensive_predicate)
  show "should_print_reduced_task_result cfg result status \<longleftrightarrow>
            (verbosity cfg > 1 \<or> (status = ''ok'' \<and> r_is_changed result))"
    by (rule reduced_predicate)
  show "\<exists>ps. payloads (console st') = payloads (console st) @ ps \<and> length ps \<le> 1
     \<and> (ps \<noteq> [] \<longrightarrow> (\<exists>cb. transformer_user_callback st' = Some cb \<and>
          (if verbosity cfg > 3 \<or> status = ''failed''
              \<or> (t_action (r_task result) = ''debug'' \<and> \<not> t_no_log (r_task result))
           then \<exists>obj. get_comprehensive_result_object cfg (r_result result) (r_task result) = Inr obj
                  \<and> ps = [transform_dict (sanitize_dict (PDict obj)) cb]
           else (verbosity cfg > 1 \<or> (status = ''ok'' \<and> r_is_changed result))
                \<and> ps = [transform_dict (sanitize_dict
                      (PDict (get_reduced_result_object cfg (r_result result) (r_task result)))) cb])))
     \<and> (err = None \<longrightarrow>
           (verbosity cfg > 3 \<or> status = ''failed''
            \<or> (t_action (r_task result) = ''debug'' \<and> \<not> t_no_log (r_task result))) \<longrightarrow>
           (\<exists>obj. get_comprehensive_result_object cfg (r_result result) (r_task result) = Inr obj
              \<and> (obj \<noteq> [] \<longrightarrow> ps \<noteq> [])))
     \<and> (err = None \<longrightarrow>
           \<not> (verbosity cfg > 3 \<or> status = ''failed''
              \<or> (t_action (r_task result) = ''debug'' \<and> \<not> t_no_log (r_task result))) \<longrightarrow>
           (verbosity cfg > 1 \<or> (status = ''ok'' \<and> r_is_changed result)) \<longrightarrow>
           get_reduced_result_object cfg (r_result result) (r_task result) \<noteq> [] \<longrightarrow> ps \<noteq> [])"
    using on_finished_task_payload_rule [OF assms]
    unfolding payload_rule_def comprehensive_predicate reduced_predicate .
qed

text \<open>Unfolding the handlers on the sample inputs.\<close>

lemmas sample_defs = sample_started_def sample_config_def sample_result_def sample_task_def
    on_finished_task_def get_task_infos_def v2_runner_on_start_def handle_new_task_def add_task_def
    init_def remove_task_def handle_role_def should_log_task_def run_is_verbose_def log_task_def
    log_line_def print_out_def print_task_result_def should_print_comprehensive_task_result_def
    should_print_reduced_task_result_def
    print_result_def get_comprehensive_result_object_def then_do_def has_key_def startswith_def
    transform_dict_user_def init_transformer_def sanitize_dict_def Sanitizer_transform_def
    BLACKLISTED_BYTES_def Identity_transform_def get_host_label_def is_task_handler_def
    role_banner_def finished_message_def Let_def

theorem one_result_payload_witness:
  "payloads (console (fst (on_finished_task sample_config 1 sample_result ''failed'' sample_started)))
     = [PDict [(''msg'', PStr ''done'')]]
   \<and> payloads (console (fst (on_finished_task sample_config 1 sample_result ''unreachable''
         sample_started))) = []
   \<and> length (console (fst (on_finished_task sample_config 1 sample_result ''unreachable''
         sample_started))) = 2
   \<and> \<not> should_print_comprehensive_task_result (sample_config\<lparr> verbosity := 2 \<rparr>) sample_result ''ok''
   \<and> should_print_reduced_task_result (sample_config\<lparr> verbosity := 2 \<rparr>) sample_result ''ok''
   \<and> payloads (console (fst (on_finished_task (sample_config\<lparr> verbosity := 2 \<rparr>) 1 sample_result
         ''ok'' sample_started))) = [PDict [(''msg'', PStr ''done'')]]
   \<and> should_print_comprehensive_task_result (sample_config\<lparr> verbosity := 2 \<rparr>) sample_result
         ''failed''
   \<and> should_print_reduced_task_result (sample_config\<lparr> verbosity := 2 \<rparr>) sample_result ''failed''
   \<and> payloads (console (fst (on_finished_task (sample_config\<lparr> verbosity := 2 \<rparr>) 1
         (sample_result\<lparr> r_result := [(''msg'', PStr ''done''), (''rc'', PInt 1)] \<rparr>)
         ''failed'' sample_started))) = [PDict [(''msg'', PStr ''done''), (''rc'', PInt 1)]]"
proof -
  note t = one_result_payload [OF prod.collapse [symmetric],
      where cfg = sample_config and now = 1 and result = sample_result and status = "''failed''"
        and st = sample_started]
  note u = one_result_payload [OF prod.collapse [symmetric],
      where cfg = "sample_config\<lparr> verbosity := 2 \<rparr>" and now = 1 and result = sample_result
        and status = "''ok''" and st = sample_started]
  have a: "payloads (console (fst (on_finished_task sample_config 1 sample_result ''failed''
      sample_started))) = [PDict [(''msg'', PStr ''done'')]]"
    by (simp add: sample_defs)
  have b: "console (fst (on_finished_task sample_config 1 sample_result ''unreachable''
      sample_started)) =
      [Log (role_banner (Some ''web'')),
       LogElapsed (finished_message ''unreachable'' False
          (''[bold]alpha[/bold] - [italic]command[/italic] - Install'')) (PFloat 1)]"
    by (simp add: sample_defs)
  have c: "payloads (console (fst (on_finished_task (sample_config\<lparr> verbosity := 2 \<rparr>) 1
      sample_result ''ok'' sample_started))) = [PDict [(''msg'', PStr ''done'')]]"
    by (simp add: sample_defs get_reduced_result_object_def copy_key_def set_item_def)
  have d: "payloads (console (fst (on_finished_task (sample_config\<lparr> verbosity := 2 \<rparr>) 1
         (sample_result\<lparr> r_result := [(''msg'', PStr ''done''), (''rc'', PInt 1)] \<rparr>)
         ''failed'' sample_started))) = [PDict [(''msg'', PStr ''done''), (''rc'', PInt 1)]]"
    by (simp add: sample_defs)
  have e: "\<not> should_print_comprehensive_task_result (sample_config\<lparr> verbosity := 2 \<rparr>)
        sample_result ''ok''
      \<and> should_print_reduced_task_result (sample_config\<lparr> verbosity := 2 \<rparr>) sample_result ''ok''
      \<and> should_print_comprehensive_task_result (sample_config\<lparr> verbosity := 2 \<rparr>) sample_result
        ''failed''
      \<and> should_print_reduced_task_result (sample_config\<lparr> verbosity := 2 \<rparr>) sample_result
        ''failed''"
    by (simp add: sample_defs)
  have l: "length (console (fst (on_finished_task sample_config 1 sample_result ''unreachable''
      sample_started))) = 2 \<and> payloads (console (fst (on_finished_task sample_config 1
      sample_result ''unreachable'' sample_started))) = []"
    by (simp add: b)
  show ?thesis using t u a c d e l by simp
qed

subsection \<open>The traversal and tuples\<close>

text \<open>
  On a value without tuples, generators and objects of other types, the traversal with
  the identity transformer gives the value back.
\<close>

lemma transform_dict_plain: "plain v \<Longrightarrow> transform_dict v Identity_transform = v"
proof (induction v)
  case (PList xs)
  then show ?case by (simp add: list_all_iff map_idI)
next
  case (PDict kvs)
  then have "\<And>kv. kv \<in> set kvs \<Longrightarrow> (case kv of (key, v) \<Rightarrow> (key, transform_dict v Identity_transform)) = kv"
    by (auto simp: list_all_iff)
  then show ?case by (simp add: map_idI)
qed (simp_all add: Identity_transform_def)

text \<open>
  C3.  The traversal does not give a tuple back: with the identity transformer the
  one-element tuple of the text \<^verbatim>\<open>a\<close> comes back as a generator object, which is not the
  tuple, and the second traversal of the chain (the user's transformer after the
  sanitizer) takes that generator for a value of an unrecognised type.
\<close>

theorem transform_dict_tuple_becomes_generator:
  "transform_dict (PTuple [PStr ''a'']) Identity_transform = PGen [PStr ''a'']
   \<and> transform_dict (PTuple [PStr ''a'']) Identity_transform \<noteq> PTuple [PStr ''a'']
   \<and> transform_dict (transform_dict (PTuple [PStr ''a'']) Sanitizer_transform) Identity_transform
       = PStr ''<RLO error - unrecognized type - <class 'generator'>>''"
  by (simp add: Identity_transform_def unrecognized_def type_text_def)

subsection \<open>A finishing event for a host that never started\<close>

text \<open>
  A second finishing event for a host whose slot has been removed takes the defensive
  branch: it returns normally and logs its line with the elapsed time 0.
\<close>

lemma finished_twice_elapsed_zero:
  "on_finished_task sample_config 2 sample_result ''unreachable''
      (fst (on_finished_task sample_config 1 sample_result ''unreachable'' sample_started))
   = ((fst (on_finished_task sample_config 1 sample_result ''unreachable'' sample_started))
        \<lparr> console :=
            [Log (role_banner (Some ''web'')),
             LogElapsed (finished_message ''unreachable'' False
                (''[bold]alpha[/bold] - [italic]command[/italic] - Install'')) (PFloat 1),
             LogElapsed (finished_message ''unreachable'' False
                (''[bold]alpha[/bold] - [italic]command[/italic] - Install'')) (PInt 0)] \<rparr>, None)"
  by (simp add: sample_defs)

text \<open>
  C5.  In the initial state, where no host has started a task, handling a finishing event
  of any status raises \<^verbatim>\<open>KeyError\<close> for the host's name at the lookup in the host table,
  before anything is logged, and leaves the state as it was.
\<close>

theorem finished_before_start_raises:
  "on_finished_task cfg now result status (init fi) = (init fi, Some (KeyError (r_host result)))"
  by (simp add: on_finished_task_def get_task_infos_def init_def Let_def)

subsection \<open>Slots of a host that starts twice\<close>

lemma slots_print_out: "slots (print_out x st) = slots st"
  by (simp add: slots_def print_out_def)

lemma slots_log_task: "slots (log_task m e st) = slots st"
  by (simp add: slots_def log_task_def log_line_def print_out_def Let_def split: option.splits)

lemma slots_handle_role: "slots (handle_role r st) = slots st"
  by (simp add: slots_def handle_role_def Let_def)

lemma slots_transform_dict_user:
  "transform_dict_user cfg v st = (r, st') \<Longrightarrow> slots st' = slots st"
  by (auto simp: slots_def transform_dict_user_def split: option.splits list.splits sum.splits)

lemma slots_transform_all:
  "transform_all cfg ds st = (r, st') \<Longrightarrow> slots st' = slots st"
proof (induction ds arbitrary: st r st')
  case Nil
  then show ?case by simp
next
  case (Cons d ds)
  then show ?case
    by (auto split: prod.splits sum.splits dest: slots_transform_dict_user)
qed

lemma slots_print_single_diff:
  "print_single_diff cfg res st = (st', e) \<Longrightarrow> slots st' = slots st"
  by (auto simp: print_single_diff_def Let_def slots_print_out
      split: option.splits prod.splits sum.splits if_splits dest: slots_transform_all)

lemma slots_print_diff_items:
  "print_diff_items cfg items st = (st', e) \<Longrightarrow> slots st' = slots st"
proof (induction items arbitrary: st st' e)
  case Nil
  then show ?case by simp
next
  case (Cons res rest)
  show ?case
  proof (cases "item_wants_diff res")
    case (Inl x)
    with Cons.prems show ?thesis by simp
  next
    case (Inr w)
    show ?thesis
    proof (cases w)
      case None
      with Cons.prems Inr have "print_diff_items cfg rest st = (st', e)" by simp
      then show ?thesis by (rule Cons.IH)
    next
      case (Some d)
      obtain st1 e1 where 1: "print_single_diff cfg d st = (st1, e1)" by (metis surj_pair)
      note p1 = slots_print_single_diff [OF 1]
      show ?thesis
      proof (cases e1)
        case None
        with Cons.prems Inr Some 1 have "print_diff_items cfg rest st1 = (st', e)" by simp
        from Cons.IH [OF this] p1 show ?thesis by simp
      next
        case (Some x)
        with Cons.prems Inr \<open>w = Some d\<close> 1 have "st' = st1" by simp
        with p1 show ?thesis by simp
      qed
    qed
  qed
qed

lemma slots_print_diff:
  "print_diff cfg result st = (st', e) \<Longrightarrow> slots st' = slots st"
  by (auto simp: print_diff_def split: if_splits option.splits sum.splits
      dest: slots_print_diff_items slots_print_single_diff)

lemma slots_print_result:
  "print_result cfg r tsk pre st = (st', e) \<Longrightarrow> slots st' = slots st"
  by (auto simp: print_result_def slots_print_out
      split: sum.splits if_splits prod.splits dest: slots_transform_dict_user)

lemma slots_print_task_result:
  "print_task_result cfg result status st = (st', e) \<Longrightarrow> slots st' = slots st"
  by (auto simp: print_task_result_def split: if_splits dest: slots_print_result)

lemma slots_on_finished_task:
  assumes "on_finished_task cfg now result status st = (st', err)"
  shows "(hosts st (r_host result) = None \<and> st' = st)
       \<or> (\<exists>tid. hosts st (r_host result) = Some tid
             \<and> slots st' = (hosts st, (progress_tasks st)(tid := None), task_index st))"
proof -
  obtain hn hl td rn where ti: "get_task_infos cfg (r_host result) (r_task result) = (hn, hl, td, rn)"
    by (metis prod_cases4)
  then have hn: "hn = r_host result" by (simp add: get_task_infos_def Let_def)
  show ?thesis
  proof (cases "hosts st hn")
    case None
    with assms ti have "st' = st" by (auto simp: on_finished_task_def)
    with None hn show ?thesis by simp
  next
    case (Some tid)
    define st1 where "st1 = (case progress_tasks st tid of Some sl \<Rightarrow> remove_task tid st | None \<Rightarrow> st)"
    define elapsed where "elapsed = (case progress_tasks st tid of
        Some sl \<Rightarrow> PFloat (now - start_time sl) | None \<Rightarrow> PInt 0)"
    define st3 where "st3 = (if should_log_task cfg result status
        then log_task (finished_message status (r_is_changed result) (''[bold]'' @ hl @ ''[/bold] - '' @ td))
               (Some elapsed) (handle_role rn st1)
        else handle_role rn st1)"
    have "(progress_tasks st)(tid := None) = progress_tasks st" if "progress_tasks st tid = None"
      using that by auto
    then have p1: "slots st1 = (hosts st, (progress_tasks st)(tid := None), task_index st)"
      by (auto simp: st1_def slots_def remove_task_def split: option.splits)
    have p3: "slots st3 = slots st1"
      by (simp add: st3_def slots_log_task slots_handle_role)
    obtain st4 e4 where d: "(if r_is_changed result then print_diff cfg result st3 else (st3, None)) = (st4, e4)"
      by (metis surj_pair)
    have p4: "slots st4 = slots st1"
    proof (cases "r_is_changed result")
      case True
      with d have "print_diff cfg result st3 = (st4, e4)" by simp
      from slots_print_diff [OF this] p3 show ?thesis by simp
    next
      case False
      with d p3 show ?thesis by simp
    qed
    note unfold = on_finished_task_unfold [OF ti Some st1_def elapsed_def st3_def]
    have "slots st' = slots st1"
    proof (cases e4)
      case (Some e)
      with unfold assms d have "st' = st4" by auto
      with p4 show ?thesis by simp
    next
      case None
      obtain st5 e5 where p: "print_task_result cfg result status st4 = (st5, e5)"
        by (metis surj_pair)
      from slots_print_task_result [OF p] p4 have p5: "slots st5 = slots st1" by simp
      from unfold None p assms d
      have "st' = st5 \<or> st' = print_out (Print (''[rlo.task.log.task_path][italic]task path: '' @ t_path (r_task result))) st5"
        by (cases e5) (auto split: if_splits)
      with p5 slots_print_out show ?thesis by auto
    qed
    with p1 Some hn show ?thesis by simp
  qed
qed

lemma slots_v2_runner_on_start:
  "slots (v2_runner_on_start cfg now h tsk st) =
     ((hosts st)(h \<mapsto> task_index st),
      (progress_tasks st)(task_index st \<mapsto>
         \<lparr> description = fst (snd (snd (get_task_infos cfg h tsk))),
           host_field = fst (snd (get_task_infos cfg h tsk)), start_time = now \<rparr>),
      Suc (task_index st))"
  by (simp add: slots_def v2_runner_on_start_def handle_new_task_def add_task_def
      get_task_infos_def Let_def)

lemma slots_v2_runner_retry:
  "v2_runner_retry cfg result st = (st', e) \<Longrightarrow> slots st' = slots st"
  by (auto simp: v2_runner_retry_def get_task_infos_def Let_def slots_log_task split: sum.splits)

lemma slots_others:
  "slots (v2_playbook_on_play_start n c st) = slots st"
  "slots (v2_playbook_on_notify cfg hdl h st) = slots st"
  "slots (v2_playbook_on_no_hosts_matched st) = slots st"
  by (simp_all add: v2_playbook_on_play_start_def v2_playbook_on_notify_def
      v2_playbook_on_no_hosts_matched_def slots_log_task log_line_def slots_print_out
      get_task_infos_def Let_def)

lemma slots_dispatch:
  assumes "dispatch cfg now ev st = (st', err)"
  shows "slots st' = slots st
       \<or> (\<exists>h tsk. slots st' = slots (v2_runner_on_start cfg now h tsk st))
       \<or> (\<exists>g tid. hosts st g = Some tid
             \<and> slots st' = (hosts st, (progress_tasks st)(tid := None), task_index st))"
proof (cases ev)
  case (RunnerOk result)
  with assms slots_on_finished_task [of cfg now result "''ok''" st st' err] show ?thesis by auto
next
  case (RunnerSkipped result)
  with assms slots_on_finished_task [of cfg now result "''skipped''" st st' err] show ?thesis by auto
next
  case (RunnerFailed result)
  with assms slots_on_finished_task [of cfg now result "''failed''" st st' err] show ?thesis by auto
next
  case (RunnerUnreachable result)
  with assms slots_on_finished_task [of cfg now result "''unreachable''" st st' err]
  show ?thesis by auto
next
  case (RunnerRetry result)
  with assms slots_v2_runner_retry show ?thesis by auto
next
  case (RunnerStart h tsk)
  with assms show ?thesis by auto
qed (use assms in \<open>auto simp: slots_others\<close>)

lemma ids_fresh_slots: "slots st' = slots st \<Longrightarrow> ids_fresh st \<Longrightarrow> ids_fresh st'"
  by (simp add: ids_fresh_def slots_def live_def)

lemma orphaned_slots: "slots st' = slots st \<Longrightarrow> orphaned st i \<Longrightarrow> orphaned st' i"
  by (simp add: orphaned_def slots_def live_def)

lemma ids_fresh_added:
  assumes "ids_fresh st"
    and "slots st' = ((hosts st)(h \<mapsto> task_index st), (progress_tasks st)(task_index st \<mapsto> sl),
           Suc (task_index st))"
  shows "ids_fresh st'"
proof -
  from assms(2) have h: "hosts st' = (hosts st)(h \<mapsto> task_index st)"
    and p: "progress_tasks st' = (progress_tasks st)(task_index st \<mapsto> sl)"
    and t: "task_index st' = Suc (task_index st)"
    by (simp_all add: slots_def)
  from assms(1) have a1: "\<And>g i. hosts st g = Some i \<Longrightarrow> i < task_index st"
    and a2: "\<And>i. progress_tasks st i \<noteq> None \<Longrightarrow> i < task_index st"
    and a3: "\<And>g g' i. hosts st g = Some i \<Longrightarrow> hosts st g' = Some i \<Longrightarrow> g = g'"
    by (auto simp: ids_fresh_def live_def)
  have b1: "i < task_index st'" if "hosts st' g = Some i" for g i
    using that a1 [of g i] by (auto simp: h t split: if_splits)
  have b2: "i < task_index st'" if "progress_tasks st' i \<noteq> None" for i
    using that a2 [of i] by (auto simp: p t split: if_splits)
  have b3: "g = g'" if "hosts st' g = Some i" "hosts st' g' = Some i" for g g' i
    using that a1 [of g i] a1 [of g' i] a3 [of g i g'] by (auto simp: h split: if_splits)
  show ?thesis
    unfolding ids_fresh_def live_def using b1 b2 b3 by blast
qed

lemma ids_fresh_removed:
  assumes "ids_fresh st" and "slots st' = (hosts st, (progress_tasks st)(tid := None), task_index st)"
  shows "ids_fresh st'"
proof -
  from assms(2) have h: "hosts st' = hosts st"
    and p: "progress_tasks st' = (progress_tasks st)(tid := None)"
    and t: "task_index st' = task_index st"
    by (simp_all add: slots_def)
  have "progress_tasks st i \<noteq> None" if "progress_tasks st' i \<noteq> None" for i
    using that by (simp add: p split: if_splits)
  with assms(1) show ?thesis
    unfolding ids_fresh_def live_def h t by blast
qed

lemma slots_start_explicit:
  assumes "slots st' = slots (v2_runner_on_start cfg now h tsk st)"
  shows "\<exists>sl. slots st' = ((hosts st)(h \<mapsto> task_index st),
           (progress_tasks st)(task_index st \<mapsto> sl), Suc (task_index st))"
  unfolding assms slots_v2_runner_on_start by (rule exI) (rule refl)

lemma ids_fresh_dispatch:
  assumes "ids_fresh st" and "dispatch cfg now ev st = (st', err)"
  shows "ids_fresh st'"
  using slots_dispatch [OF assms(2)]
proof (elim disjE exE conjE)
  assume "slots st' = slots st"
  then show ?thesis using assms(1) by (rule ids_fresh_slots)
next
  fix h tsk
  assume "slots st' = slots (v2_runner_on_start cfg now h tsk st)"
  from slots_start_explicit [OF this] obtain sl where
    "slots st' = ((hosts st)(h \<mapsto> task_index st),
           (progress_tasks st)(task_index st \<mapsto> sl), Suc (task_index st))" ..
  with assms(1) show ?thesis by (rule ids_fresh_added)
next
  fix g tid
  assume "slots st' = (hosts st, (progress_tasks st)(tid := None), task_index st)"
  with assms(1) show ?thesis by (rule ids_fresh_removed)
qed

lemma orphaned_dispatch:
  assumes "ids_fresh st" and "orphaned st i" and "dispatch cfg now ev st = (st', err)"
  shows "orphaned st' i"
proof -
  from assms(2) have l: "progress_tasks st i \<noteq> None" and n: "\<And>h. hosts st h \<noteq> Some i"
    by (simp_all add: orphaned_def live_def)
  from assms(1) l have b: "i < task_index st" by (simp add: ids_fresh_def live_def)
  from slots_dispatch [OF assms(3)] show ?thesis
  proof (elim disjE exE conjE)
    assume "slots st' = slots st"
    then show ?thesis using assms(2) by (rule orphaned_slots)
  next
    fix h tsk
    assume "slots st' = slots (v2_runner_on_start cfg now h tsk st)"
    from slots_start_explicit [OF this] obtain sl where
      "slots st' = ((hosts st)(h \<mapsto> task_index st),
           (progress_tasks st)(task_index st \<mapsto> sl), Suc (task_index st))" ..
    then have h: "hosts st' = (hosts st)(h \<mapsto> task_index st)"
      and p: "progress_tasks st' = (progress_tasks st)(task_index st \<mapsto> sl)"
      by (simp_all add: slots_def)
    from l b have "progress_tasks st' i \<noteq> None" by (simp add: p)
    moreover have "hosts st' g \<noteq> Some i" for g
      using n [of g] b by (simp add: h)
    ultimately show ?thesis by (simp add: orphaned_def live_def)
  next
    fix g tid
    assume g: "hosts st g = Some tid"
      and "slots st' = (hosts st, (progress_tasks st)(tid := None), task_index st)"
    then have h: "hosts st' = hosts st"
      and p: "progress_tasks st' = (progress_tasks st)(tid := None)"
      by (simp_all add: slots_def)
    from g n [of g] have "tid \<noteq> i" by simp
    with l have "progress_tasks st' i \<noteq> None" by (simp add: p)
    with n show ?thesis by (simp add: orphaned_def live_def h)
  qed
qed

lemma ids_fresh_run: "ids_fresh st \<Longrightarrow> ids_fresh (run cfg evs st)"
proof (induction evs arbitrary: st)
  case Nil
  then show ?case by simp
next
  case (Cons a evs)
  obtain now ev where a: "a = (now, ev)" by (cases a)
  have "ids_fresh (fst (dispatch cfg now ev st))"
    by (rule ids_fresh_dispatch [OF Cons.prems prod.collapse [symmetric]])
  then have "ids_fresh (run cfg evs (fst (dispatch cfg now ev st)))" by (rule Cons.IH)
  then show ?case by (simp add: a)
qed

lemma orphaned_run: "ids_fresh st \<Longrightarrow> orphaned st i \<Longrightarrow> orphaned (run cfg evs st) i"
proof (induction evs arbitrary: st)
  case Nil
  then show ?case by simp
next
  case (Cons a evs)
  obtain now ev where a: "a = (now, ev)" by (cases a)
  have f: "ids_fresh (fst (dispatch cfg now ev st))"
    by (rule ids_fresh_dispatch [OF Cons.prems(1) prod.collapse [symmetric]])
  have "orphaned (fst (dispatch cfg now ev st)) i"
    by (rule orphaned_dispatch [OF Cons.prems prod.collapse [symmetric]])
  with f have "orphaned (run cfg evs (fst (dispatch cfg now ev st))) i" by (rule Cons.IH)
  then show ?case by (simp add: a)
qed

lemma ids_fresh_init: "ids_fresh (init fi)"
  by (simp add: ids_fresh_def init_def live_def)

lemma tidy_slots: "slots st' = slots st \<Longrightarrow> tidy R st \<Longrightarrow> tidy R st'"
  by (simp add: tidy_def ids_fresh_def slots_def live_def)

lemma tidy_init: "tidy {} (init fi)"
  by (simp add: tidy_def ids_fresh_init) (simp add: init_def live_def)

lemma tidy_finished:
  assumes "on_finished_task cfg now result status st = (st', err)" and "tidy R st"
  shows "tidy (R - {r_host result}) st'"
proof -
  from assms(2) have f: "ids_fresh st"
    and a: "\<And>i. progress_tasks st i \<noteq> None \<Longrightarrow> \<exists>h. h \<in> R \<and> hosts st h = Some i"
    and b: "\<And>h. h \<in> R \<Longrightarrow> \<exists>i. hosts st h = Some i \<and> progress_tasks st i \<noteq> None"
    by (simp_all add: tidy_def live_def)
  from f have inj: "\<And>g g' i. hosts st g = Some i \<Longrightarrow> hosts st g' = Some i \<Longrightarrow> g = g'"
    unfolding ids_fresh_def by blast
  from slots_on_finished_task [OF assms(1)] show ?thesis
  proof (elim disjE exE conjE)
    assume n: "hosts st (r_host result) = None" and e: "st' = st"
    have "\<exists>h. h \<in> R - {r_host result} \<and> hosts st h = Some i" if "progress_tasks st i \<noteq> None" for i
    proof -
      from a [OF that] obtain h where "h \<in> R" "hosts st h = Some i" by blast
      with n have "h \<in> R - {r_host result}" by auto
      with \<open>hosts st h = Some i\<close> show ?thesis by blast
    qed
    with f b show ?thesis unfolding e tidy_def live_def by auto
  next
    fix tid
    assume t: "hosts st (r_host result) = Some tid"
      and s: "slots st' = (hosts st, (progress_tasks st)(tid := None), task_index st)"
    then have h: "hosts st' = hosts st"
      and p: "progress_tasks st' = (progress_tasks st)(tid := None)"
      by (simp_all add: slots_def)
    have f': "ids_fresh st'" using f s by (rule ids_fresh_removed)
    have a': "\<exists>h. h \<in> R - {r_host result} \<and> hosts st' h = Some i"
      if "progress_tasks st' i \<noteq> None" for i
    proof -
      from that have i: "i \<noteq> tid" "progress_tasks st i \<noteq> None"
        by (simp_all add: p split: if_splits)
      from a [OF i(2)] obtain g where g: "g \<in> R" "hosts st g = Some i" by blast
      with t i(1) have "g \<noteq> r_host result" by auto
      with g show ?thesis by (auto simp: h)
    qed
    have b': "\<exists>i. hosts st' g = Some i \<and> progress_tasks st' i \<noteq> None"
      if "g \<in> R - {r_host result}" for g
    proof -
      from that have g: "g \<in> R" "g \<noteq> r_host result" by auto
      from b [OF g(1)] obtain i where i: "hosts st g = Some i" "progress_tasks st i \<noteq> None"
        by blast
      from inj [OF i(1) , of "r_host result"] t g(2) have "i \<noteq> tid" by auto
      with i show ?thesis by (simp add: h p)
    qed
    from f' a' b' show ?thesis unfolding tidy_def live_def by blast
  qed
qed

lemma tidy_start:
  assumes "tidy R st" and "h \<notin> R"
  shows "tidy (insert h R) (v2_runner_on_start cfg now h tsk st)"
proof -
  define st' where "st' = v2_runner_on_start cfg now h tsk st"
  from assms(1) have f: "ids_fresh st"
    and a: "\<And>i. progress_tasks st i \<noteq> None \<Longrightarrow> \<exists>g. g \<in> R \<and> hosts st g = Some i"
    and b: "\<And>g. g \<in> R \<Longrightarrow> \<exists>i. hosts st g = Some i \<and> progress_tasks st i \<noteq> None"
    by (simp_all add: tidy_def live_def)
  have "slots st' = slots (v2_runner_on_start cfg now h tsk st)" by (simp add: st'_def)
  from slots_start_explicit [OF this] obtain sl where
    s: "slots st' = ((hosts st)(h \<mapsto> task_index st),
           (progress_tasks st)(task_index st \<mapsto> sl), Suc (task_index st))" ..
  then have h: "hosts st' = (hosts st)(h \<mapsto> task_index st)"
    and p: "progress_tasks st' = (progress_tasks st)(task_index st \<mapsto> sl)"
    by (simp_all add: slots_def)
  have f': "ids_fresh st'" using f s by (rule ids_fresh_added)
  from f have lt: "\<And>i. progress_tasks st i \<noteq> None \<Longrightarrow> i < task_index st"
    by (simp add: ids_fresh_def live_def)
  have a': "\<exists>g. g \<in> insert h R \<and> hosts st' g = Some i" if "progress_tasks st' i \<noteq> None" for i
  proof (cases "i = task_index st")
    case True
    then show ?thesis by (auto simp: h)
  next
    case False
    with that have "progress_tasks st i \<noteq> None" by (simp add: p)
    from a [OF this] obtain g where g: "g \<in> R" "hosts st g = Some i" by blast
    with assms(2) have "g \<noteq> h" by auto
    with g show ?thesis by (auto simp: h)
  qed
  have b': "\<exists>i. hosts st' g = Some i \<and> progress_tasks st' i \<noteq> None" if "g \<in> insert h R" for g
  proof (cases "g = h")
    case True
    then show ?thesis by (simp add: h p)
  next
    case False
    with that have "g \<in> R" by simp
    from b [OF this] obtain i where i: "hosts st g = Some i" "progress_tasks st i \<noteq> None" by blast
    from lt [OF i(2)] i False show ?thesis by (simp add: h p)
  qed
  from f' a' b' show ?thesis unfolding tidy_def live_def st'_def [symmetric] by blast
qed

lemma tidy_dispatch:
  assumes "tidy R st" and "\<not> restarts R ev" and "dispatch cfg now ev st = (st', err)"
  shows "tidy (running_after R ev) st'"
proof (cases ev)
  case (RunnerStart h tsk)
  with assms(2,3) have "h \<notin> R" "st' = v2_runner_on_start cfg now h tsk st" by auto
  with assms(1) RunnerStart show ?thesis by (simp add: tidy_start)
next
  case (RunnerOk result)
  with assms(3) have "on_finished_task cfg now result ''ok'' st = (st', err)" by simp
  from tidy_finished [OF this assms(1)] RunnerOk show ?thesis by simp
next
  case (RunnerSkipped result)
  with assms(3) have "on_finished_task cfg now result ''skipped'' st = (st', err)" by simp
  from tidy_finished [OF this assms(1)] RunnerSkipped show ?thesis by simp
next
  case (RunnerFailed result)
  with assms(3) have "on_finished_task cfg now result ''failed'' st = (st', err)" by simp
  from tidy_finished [OF this assms(1)] RunnerFailed show ?thesis by simp
next
  case (RunnerUnreachable result)
  with assms(3) have "on_finished_task cfg now result ''unreachable'' st = (st', err)" by simp
  from tidy_finished [OF this assms(1)] RunnerUnreachable show ?thesis by simp
next
  case (RunnerRetry result)
  with assms(3) have "slots st' = slots st" by (auto dest: slots_v2_runner_retry)
  then show ?thesis using assms(1) RunnerRetry by (simp add: tidy_slots)
next
  case (PlayStart n c)
  with assms(3) have "slots st' = slots st" by (auto simp: slots_others)
  then show ?thesis using assms(1) PlayStart by (simp add: tidy_slots)
next
  case (Notify hdl h)
  with assms(3) have "slots st' = slots st" by (auto simp: slots_others)
  then show ?thesis using assms(1) Notify by (simp add: tidy_slots)
next
  case NoHostsMatched
  with assms(3) have "slots st' = slots st" by (auto simp: slots_others)
  then show ?thesis using assms(1) NoHostsMatched by (simp add: tidy_slots)
qed

lemma start_orphans:
  assumes "ids_fresh st" and "hosts st h = Some i" and "live st i"
  shows "hosts (v2_runner_on_start cfg now h tsk st) h = Some (task_index st)
       \<and> task_index st \<noteq> i
       \<and> live (v2_runner_on_start cfg now h tsk st) (task_index st)
       \<and> live (v2_runner_on_start cfg now h tsk st) i
       \<and> orphaned (v2_runner_on_start cfg now h tsk st) i
       \<and> ids_fresh (v2_runner_on_start cfg now h tsk st)"
proof -
  define st' where "st' = v2_runner_on_start cfg now h tsk st"
  have "slots st' = slots (v2_runner_on_start cfg now h tsk st)" by (simp add: st'_def)
  from slots_start_explicit [OF this] obtain sl where
    s: "slots st' = ((hosts st)(h \<mapsto> task_index st),
           (progress_tasks st)(task_index st \<mapsto> sl), Suc (task_index st))" ..
  then have h: "hosts st' = (hosts st)(h \<mapsto> task_index st)"
    and p: "progress_tasks st' = (progress_tasks st)(task_index st \<mapsto> sl)"
    by (simp_all add: slots_def)
  from assms have lt: "i < task_index st" by (simp add: ids_fresh_def)
  from assms(1) have inj: "\<And>g. hosts st g = Some i \<Longrightarrow> g = h"
    using assms(2) unfolding ids_fresh_def by blast
  have 1: "hosts st' h = Some (task_index st)" by (simp add: h)
  have 2: "task_index st \<noteq> i" using lt by simp
  have 3: "live st' (task_index st)" by (simp add: live_def p)
  have 4: "live st' i" using assms(3) by (simp add: live_def p)
  have "hosts st' g \<noteq> Some i" for g
    using inj [of g] 2 by (auto simp: h)
  with 4 have 5: "orphaned st' i" by (simp add: orphaned_def)
  have 6: "ids_fresh st'" using assms(1) s by (rule ids_fresh_added)
  from 1 2 3 4 5 6 show ?thesis unfolding st'_def by blast
qed

lemma tidy_no_orphan: "tidy R st \<Longrightarrow> \<not> orphaned st i"
  by (auto simp: tidy_def orphaned_def)

lemma tidy_ids_fresh: "tidy R st \<Longrightarrow> ids_fresh st"
  by (simp add: tidy_def)

lemma matched_run: "tidy R st \<Longrightarrow> matched R evs \<Longrightarrow> \<exists>R'. tidy R' (run cfg evs st)"
proof (induction evs arbitrary: R st)
  case Nil
  then show ?case by auto
next
  case (Cons a evs)
  obtain now ev where a: "a = (now, ev)" by (cases a)
  from Cons.prems a have r: "\<not> restarts R ev" and m: "matched (running_after R ev) evs" by simp_all
  have "tidy (running_after R ev) (fst (dispatch cfg now ev st))"
    by (rule tidy_dispatch [OF Cons.prems(1) r prod.collapse [symmetric]])
  from Cons.IH [OF this m] show ?case by (simp add: a)
qed

lemma unmatched_run:
  "tidy R st \<Longrightarrow> \<not> matched R evs \<Longrightarrow> \<exists>i. orphaned (run cfg evs st) i"
proof (induction evs arbitrary: R st)
  case Nil
  then show ?case by simp
next
  case (Cons a evs)
  obtain now ev where a: "a = (now, ev)" by (cases a)
  show ?case
  proof (cases "restarts R ev")
    case True
    then obtain h tsk where ev: "ev = RunnerStart h tsk" and h: "h \<in> R"
      by (cases ev) auto
    from Cons.prems(1) h obtain i where i: "hosts st h = Some i" "live st i"
      unfolding tidy_def by blast
    from start_orphans [OF tidy_ids_fresh [OF Cons.prems(1)] i]
    have "orphaned (v2_runner_on_start cfg now h tsk st) i"
      and "ids_fresh (v2_runner_on_start cfg now h tsk st)" by blast+
    then have "orphaned (run cfg evs (v2_runner_on_start cfg now h tsk st)) i"
      using orphaned_run by blast
    then show ?thesis by (auto simp: a ev)
  next
    case False
    with Cons.prems a have m: "\<not> matched (running_after R ev) evs" by simp
    have "tidy (running_after R ev) (fst (dispatch cfg now ev st))"
      by (rule tidy_dispatch [OF Cons.prems(1) False prod.collapse [symmetric]])
    from Cons.IH [OF this m] show ?thesis by (simp add: a)
  qed
qed

text \<open>
  C10.  When a start arrives for a host whose current slot \<open>i\<close> is live, the host's entry
  is overwritten with the fresh id, both slots are live, and after any further events
  slot \<open>i\<close> is still live and is no host's current slot: no finishing event removes it.
  Every reachable state has fresh ids.  From the initial state, the states in which
  every live slot is the current slot of a host (so that no host has two live slots) are
  exactly those reached by streams in which each host's start is matched by a finishing
  event before its next start.
\<close>

theorem restarted_host_orphans_slot:
  "(ids_fresh st \<and> hosts st h = Some i \<and> live st i \<longrightarrow>
      hosts (v2_runner_on_start cfg now h tsk st) h = Some (task_index st)
      \<and> task_index st \<noteq> i
      \<and> live (v2_runner_on_start cfg now h tsk st) (task_index st)
      \<and> live (v2_runner_on_start cfg now h tsk st) i
      \<and> orphaned (run cfg evs (v2_runner_on_start cfg now h tsk st)) i)
   \<and> ids_fresh (run cfg evs (init fi))
   \<and> ((\<forall>i. \<not> orphaned (run cfg evs (init fi)) i) \<longleftrightarrow> matched {} evs)"
proof (intro conjI impI)
  assume a: "ids_fresh st \<and> hosts st h = Some i \<and> live st i"
  then have s: "hosts (v2_runner_on_start cfg now h tsk st) h = Some (task_index st)
       \<and> task_index st \<noteq> i
       \<and> live (v2_runner_on_start cfg now h tsk st) (task_index st)
       \<and> live (v2_runner_on_start cfg now h tsk st) i
       \<and> orphaned (v2_runner_on_start cfg now h tsk st) i
       \<and> ids_fresh (v2_runner_on_start cfg now h tsk st)"
    using start_orphans by blast
  then show "hosts (v2_runner_on_start cfg now h tsk st) h = Some (task_index st)"
    and "task_index st \<noteq> i"
    and "live (v2_runner_on_start cfg now h tsk st) (task_index st)"
    and "live (v2_runner_on_start cfg now h tsk st) i" by blast+
  from s show "orphaned (run cfg evs (v2_runner_on_start cfg now h tsk st)) i"
    using orphaned_run by blast
next
  show "ids_fresh (run cfg evs (init fi))" by (rule ids_fresh_run [OF ids_fresh_init])
next
  show "(\<forall>i. \<not> orphaned (run cfg evs (init fi)) i) \<longleftrightarrow> matched {} evs"
  proof
    assume n: "\<forall>i. \<not> orphaned (run cfg evs (init fi)) i"
    show "matched {} evs"
    proof (rule ccontr)
      assume "\<not> matched {} evs"
      from unmatched_run [OF tidy_init [of fi] this, where cfg = cfg] n
      show False by blast
    qed
  next
    assume "matched {} evs"
    from matched_run [OF tidy_init [of fi] this, where cfg = cfg]
    obtain R' where "tidy R' (run cfg evs (init fi))" ..
    then show "\<forall>i. \<not> orphaned (run cfg evs (init fi)) i"
      by (simp add: tidy_no_orphan)
  qed
qed

theorem restarted_host_orphans_slot_witness:
  "hosts sample_started ''alpha'' = Some 0 \<and> live sample_started 0
   \<and> hosts (v2_runner_on_start sample_config 1 ''alpha'' sample_task sample_started) ''alpha'' = Some 1
   \<and> live (v2_runner_on_start sample_config 1 ''alpha'' sample_task sample_started) 1
   \<and> orphaned (run sample_config [(2, RunnerOk sample_result), (3, RunnerOk sample_result)]
        (v2_runner_on_start sample_config 1 ''alpha'' sample_task sample_started)) 0
   \<and> \<not> matched {} [(0, RunnerStart ''alpha'' sample_task), (1, RunnerStart ''alpha'' sample_task)]
   \<and> matched {} [(0, RunnerStart ''alpha'' sample_task), (1, RunnerOk sample_result),
                  (2, RunnerStart ''alpha'' sample_task)]"
proof -
  have f: "ids_fresh sample_started"
    unfolding sample_started_def
    using ids_fresh_dispatch [OF ids_fresh_init, of sample_config 0 "RunnerStart ''alpha'' sample_task"]
    by simp
  have h: "hosts sample_started ''alpha'' = Some 0"
    by (simp add: sample_started_def v2_runner_on_start_def handle_new_task_def add_task_def
        get_task_infos_def init_def Let_def)
  have l: "live sample_started 0"
    by (simp add: live_def sample_started_def v2_runner_on_start_def handle_new_task_def
        add_task_def get_task_infos_def init_def Let_def)
  have t: "task_index sample_started = 1"
    by (simp add: sample_started_def v2_runner_on_start_def handle_new_task_def
        add_task_def get_task_infos_def init_def Let_def)
  have m: "\<not> matched {} [(0, RunnerStart ''alpha'' sample_task), (1, RunnerStart ''alpha'' sample_task)]
   \<and> matched {} [(0, RunnerStart ''alpha'' sample_task), (1, RunnerOk sample_result),
                  (2, RunnerStart ''alpha'' sample_task)]"
    by (simp add: sample_result_def)
  show ?thesis
    using restarted_host_orphans_slot [where st = sample_started and h = "''alpha''" and i = 0 and cfg = sample_config
        and now = 1 and tsk = sample_task
        and evs = "[(2, RunnerOk sample_result), (3, RunnerOk sample_result)]"]
      f h l t m
    by simp
qed

subsection \<open>The role banner\<close>



























































end
